theory Spec2Isabelle
  imports Main
begin

section \<open>The gossip sync manager (package discovery, sync manager)\<close>

text \<open>
  The development embeds the \<^verbatim>\<open>SyncManager\<close> of package \<^verbatim>\<open>discovery\<close>: its two
  registry maps, the event loop \<^verbatim>\<open>syncerHandler\<close> with its four loop-local variables,
  and the helpers the loop calls (\<^verbatim>\<open>createGossipSyncer\<close>, \<^verbatim>\<open>removeGossipSyncer\<close>,
  \<^verbatim>\<open>rotateActiveSyncerCandidate\<close>, \<^verbatim>\<open>transitionActiveSyncer\<close>,
  \<^verbatim>\<open>transitionPassiveSyncer\<close>, \<^verbatim>\<open>forceHistoricalSync\<close>, \<^verbatim>\<open>chooseRandomSyncer\<close>,
  \<^verbatim>\<open>gossipSyncer\<close>, \<^verbatim>\<open>gossipSyncers\<close>).

  The \<^verbatim>\<open>GossipSyncer\<close> itself is an external collaborator whose code is not part of
  the sources at hand. Everything it decides (whether a sync transition or a historical
  sync returns an error) and everything Go leaves open (the order in which
  \<^verbatim>\<open>range\<close> visits a map) is supplied by an explicit environment, so that every
  theorem quantifies over all such outcomes.
\<close>

subsection \<open>Data model\<close>

text \<open>\<^verbatim>\<open>route.Vertex\<close> is a 33-byte public key used as map key; only equality is used.\<close>

type_synonym Vertex = nat

datatype SyncerType = ActiveSync | PassiveSync

text \<open>
  Modelled from the spec: the type \<^verbatim>\<open>syncerState\<close> is declared with the syncer, outside
  the sources at hand. The manager only compares a state with \<^verbatim>\<open>chansSynced\<close>; the spec
  lists the states as \<open>{chansSynced, \<dots>other\<dots>}\<close>.
\<close>

datatype syncerState = chansSynced | syncingChans

text \<open>
  Errors. \<^verbatim>\<open>ErrSyncManagerExiting\<close> is the manager's own; the errors returned by the
  syncer's \<^verbatim>\<open>ProcessSyncTransition\<close> and \<^verbatim>\<open>historicalSync\<close> are opaque to the manager
  (it only tests them against \<^verbatim>\<open>nil\<close>) and are numbered.
\<close>

datatype error = ErrSyncManagerExiting | SyncerError nat

text \<open>
  The handle of a syncer as far as the manager reads or writes it: \<^verbatim>\<open>cfg.peerPub\<close>
  (immutable), the sync type written by \<^verbatim>\<open>setSyncType\<close>, and the state read by
  \<^verbatim>\<open>syncState()\<close>.
\<close>

record GossipSyncer =
  peerPub :: Vertex
  syncType :: SyncerType
  state :: syncerState

text \<open>
  The calls the manager makes on its collaborators, in the order it makes them. The list
  is a ghost field of the manager: no decision of the code reads it.
\<close>

datatype call =
    Start Vertex
  | Stop Vertex
  | CloseDone
  | CallProcessSyncTransition Vertex SyncerType "error option"
  | CallHistoricalSync Vertex "error option"
  | CallResetSyncedSignal Vertex

record SyncManagerCfg =
  NumActiveSyncers :: int

record SyncManager =
  cfg :: SyncManagerCfg
  activeSyncers :: "Vertex \<rightharpoonup> GossipSyncer"
  inactiveSyncers :: "Vertex \<rightharpoonup> GossipSyncer"
  calls :: "call list"

text \<open>
  The environment of one iteration of the event loop.
  \<^item> \<open>rangeOrder e i\<close> lists the peers in the order in which the \<open>i\<close>-th \<^verbatim>\<open>range\<close> of
    the iteration visits those of them that are keys of its map.
  \<^item> \<open>transitionErr e i p t\<close> is what \<^verbatim>\<open>ProcessSyncTransition(t)\<close> returns on the syncer
    of peer \<open>p\<close> during the \<open>i\<close>-th \<^verbatim>\<open>chooseRandomSyncer\<close> of the iteration (\<open>None\<close> is
    \<^verbatim>\<open>nil\<close>).
  \<^item> \<open>historicalErr e p\<close> is what \<^verbatim>\<open>historicalSync()\<close> returns on the syncer of \<open>p\<close>.
\<close>

record env =
  rangeOrder :: "nat \<Rightarrow> Vertex list"
  transitionErr :: "nat \<Rightarrow> Vertex \<Rightarrow> SyncerType \<Rightarrow> error option"
  historicalErr :: "Vertex \<Rightarrow> error option"

text \<open>The variables declared at the top of \<^verbatim>\<open>syncerHandler\<close>, with the manager.\<close>

record handler =
  mgr :: SyncManager
  attemptInitialHistoricalSync :: bool
  initialHistoricalSyncCompleted :: bool
  initialHistoricalSyncer :: "GossipSyncer option"
  initialHistoricalSyncSignal :: "Vertex option"

text \<open>
  \<open>initialHistoricalSyncSignal\<close> is a channel obtained from \<^verbatim>\<open>ResetSyncedSignal()\<close> of a
  syncer; \<open>None\<close> is the \<^verbatim>\<open>nil\<close> channel, \<open>Some p\<close> the channel of the syncer of \<open>p\<close>.
\<close>

subsection \<open>Operations\<close>

definition newSyncManager :: "SyncManagerCfg \<Rightarrow> SyncManager" where
  "newSyncManager c =
     \<lparr>cfg = c, activeSyncers = Map.empty, inactiveSyncers = Map.empty, calls = []\<rparr>"

definition record_call :: "call \<Rightarrow> SyncManager \<Rightarrow> SyncManager" where
  "record_call c m = m\<lparr>calls := calls m @ [c]\<rparr>"

text \<open>
  \<^verbatim>\<open>len(m)\<close> of a Go map, an \<^verbatim>\<open>int\<close>. The maps of the manager are finite (part of
  \<open>registry_ok\<close> below, which the loop keeps), so that \<open>card\<close> counts their keys.
\<close>

definition len :: "(Vertex \<rightharpoonup> GossipSyncer) \<Rightarrow> int" where
  "len syncers = int (card (dom syncers))"

text \<open>
  \<^verbatim>\<open>for _, s := range syncers\<close>: the values met when the keys of the map are visited in
  the order in which they stand in \<open>ord\<close>; a peer of \<open>ord\<close> that is not a key is passed
  over. Go visits every key once, so an order that the runtime can produce is
  \<open>range_complete\<close>: no peer twice, no key missing.
\<close>

definition rangeMap :: "Vertex list \<Rightarrow> (Vertex \<rightharpoonup> GossipSyncer) \<Rightarrow> GossipSyncer list" where
  "rangeMap ord syncers = List.map_filter syncers ord"

definition range_complete :: "Vertex list \<Rightarrow> (Vertex \<rightharpoonup> GossipSyncer) \<Rightarrow> bool" where
  "range_complete ord syncers = (distinct ord \<and> dom syncers \<subseteq> set ord)"

definition gossipSyncer :: "SyncManager \<Rightarrow> Vertex \<Rightarrow> GossipSyncer option" where
  "gossipSyncer m peer =
     (case inactiveSyncers m peer of
        Some syncer \<Rightarrow> Some syncer
      | None \<Rightarrow> (case activeSyncers m peer of
                  Some syncer \<Rightarrow> Some syncer
                | None \<Rightarrow> None))"

text \<open>\<^verbatim>\<open>syncers[syncer.cfg.peerPub] = syncer\<close> for every syncer of a range.\<close>

definition collect :: "GossipSyncer list \<Rightarrow> (Vertex \<rightharpoonup> GossipSyncer) \<Rightarrow> (Vertex \<rightharpoonup> GossipSyncer)" where
  "collect ss syncers = fold (\<lambda>syncer acc. acc(peerPub syncer \<mapsto> syncer)) ss syncers"

definition gossipSyncers :: "env \<Rightarrow> nat \<Rightarrow> SyncManager \<Rightarrow> (Vertex \<rightharpoonup> GossipSyncer)" where
  "gossipSyncers e i m =
     collect (rangeMap (rangeOrder e (i + 1)) (activeSyncers m))
       (collect (rangeMap (rangeOrder e i) (inactiveSyncers m)) Map.empty)"

definition createGossipSyncer :: "Vertex \<Rightarrow> GossipSyncer" where
  "createGossipSyncer nodeID = \<lparr>peerPub = nodeID, syncType = PassiveSync, state = chansSynced\<rparr>"

text \<open>
  Modelled from the spec: \<^verbatim>\<open>ProcessSyncTransition\<close> is a method of the syncer. It returns
  an error or \<^verbatim>\<open>nil\<close> (the environment says which); on success the syncer has the
  requested sync type (the spec: "transition it Passive\<rightarrow>Active").
\<close>

definition ProcessSyncTransition ::
  "env \<Rightarrow> nat \<Rightarrow> GossipSyncer \<Rightarrow> SyncerType \<Rightarrow> error + GossipSyncer" where
  "ProcessSyncTransition e i s t =
     (case transitionErr e i (peerPub s) t of
        Some err \<Rightarrow> Inl err
      | None \<Rightarrow> Inr (s\<lparr>syncType := t\<rparr>))"

definition transitionActiveSyncer ::
  "env \<Rightarrow> nat \<Rightarrow> GossipSyncer \<Rightarrow> SyncManager \<Rightarrow> error option \<times> SyncManager" where
  "transitionActiveSyncer e i s m =
     (case ProcessSyncTransition e i s PassiveSync of
        Inl err \<Rightarrow>
          (Some err, record_call (CallProcessSyncTransition (peerPub s) PassiveSync (Some err)) m)
      | Inr s' \<Rightarrow>
          (None, record_call (CallProcessSyncTransition (peerPub s) PassiveSync None)
                   (m\<lparr>activeSyncers := (activeSyncers m)(peerPub s := None),
                      inactiveSyncers := (inactiveSyncers m)(peerPub s \<mapsto> s')\<rparr>)))"

definition transitionPassiveSyncer ::
  "env \<Rightarrow> nat \<Rightarrow> GossipSyncer \<Rightarrow> SyncManager \<Rightarrow> error option \<times> SyncManager" where
  "transitionPassiveSyncer e i s m =
     (case ProcessSyncTransition e i s ActiveSync of
        Inl err \<Rightarrow>
          (Some err, record_call (CallProcessSyncTransition (peerPub s) ActiveSync (Some err)) m)
      | Inr s' \<Rightarrow>
          (None, record_call (CallProcessSyncTransition (peerPub s) ActiveSync None)
                   (m\<lparr>inactiveSyncers := (inactiveSyncers m)(peerPub s := None),
                      activeSyncers := (activeSyncers m)(peerPub s \<mapsto> s')\<rparr>)))"

text \<open>
  Modelled from the spec: \<^verbatim>\<open>historicalSync\<close> is a method of the syncer; the manager only
  tests its result against \<^verbatim>\<open>nil\<close>.
\<close>

definition historicalSync ::
  "env \<Rightarrow> GossipSyncer \<Rightarrow> SyncManager \<Rightarrow> error option \<times> SyncManager" where
  "historicalSync e s m =
     (historicalErr e (peerPub s),
      record_call (CallHistoricalSync (peerPub s) (historicalErr e (peerPub s))) m)"

text \<open>
  The loop of \<^verbatim>\<open>chooseRandomSyncer\<close> over the syncers of the range: skip a syncer that is
  not \<^verbatim>\<open>chansSynced\<close>, skip one whose action fails, return the first other one.
  The action, when there is one, runs on the manager. The syncer returned is the handle as
  the range read it: where the code returns the pointer, a successful transition has
  already changed its sync type. The callers that run a transition as the action drop
  the result; the others read only \<^verbatim>\<open>cfg.peerPub\<close> of it.
\<close>

fun chooseLoop ::
  "GossipSyncer list \<Rightarrow> (GossipSyncer \<Rightarrow> SyncManager \<Rightarrow> error option \<times> SyncManager) option
     \<Rightarrow> SyncManager \<Rightarrow> GossipSyncer option \<times> SyncManager" where
  "chooseLoop [] action m = (None, m)"
| "chooseLoop (s # rest) action m =
     (if state s \<noteq> chansSynced then chooseLoop rest action m
      else (case action of
              None \<Rightarrow> (Some s, m)
            | Some act \<Rightarrow>
                (case act s m of
                   (Some err, m') \<Rightarrow> chooseLoop rest action m'
                 | (None, m') \<Rightarrow> (Some s, m'))))"

definition chooseRandomSyncer ::
  "env \<Rightarrow> nat \<Rightarrow> (Vertex \<rightharpoonup> GossipSyncer)
     \<Rightarrow> (GossipSyncer \<Rightarrow> SyncManager \<Rightarrow> error option \<times> SyncManager) option
     \<Rightarrow> SyncManager \<Rightarrow> GossipSyncer option \<times> SyncManager" where
  "chooseRandomSyncer e i syncers action m =
     chooseLoop (rangeMap (rangeOrder e i) syncers) action m"

definition forceHistoricalSync ::
  "env \<Rightarrow> nat \<Rightarrow> SyncManager \<Rightarrow> GossipSyncer option \<times> SyncManager" where
  "forceHistoricalSync e i m =
     chooseRandomSyncer e (i + 2) (gossipSyncers e i m) (Some (historicalSync e)) m"

definition removeGossipSyncer :: "env \<Rightarrow> Vertex \<Rightarrow> SyncManager \<Rightarrow> SyncManager" where
  "removeGossipSyncer e peer m =
     (case gossipSyncer m peer of
        None \<Rightarrow> m
      | Some s \<Rightarrow>
          (let m1 = record_call (Stop (peerPub s)) m in
           if inactiveSyncers m1 peer \<noteq> None
           then m1\<lparr>inactiveSyncers := (inactiveSyncers m1)(peer := None)\<rparr>
           else (let m2 = m1\<lparr>activeSyncers := (activeSyncers m1)(peer := None)\<rparr>
                 in snd (chooseRandomSyncer e 0 (inactiveSyncers m2)
                           (Some (transitionPassiveSyncer e 0)) m2))))"

definition rotateActiveSyncerCandidate :: "env \<Rightarrow> SyncManager \<Rightarrow> SyncManager" where
  "rotateActiveSyncerCandidate e m =
     (case fst (chooseRandomSyncer e 0 (activeSyncers m) None m) of
        None \<Rightarrow> m
      | Some activeSyncer \<Rightarrow>
          (case fst (chooseRandomSyncer e 1 (inactiveSyncers m) None m) of
             None \<Rightarrow> m
           | Some candidate \<Rightarrow>
               (case transitionActiveSyncer e 0 activeSyncer m of
                  (Some err, m1) \<Rightarrow> m1
                | (None, m1) \<Rightarrow> snd (transitionPassiveSyncer e 0 candidate m1))))"

subsection \<open>The event loop\<close>

text \<open>
  The events of the \<^verbatim>\<open>select\<close> of \<^verbatim>\<open>syncerHandler\<close>, one constructor for each case.
  \<open>SyncStateChange\<close> is not a case of the loop: it is the syncer of a peer changing its own
  state between two iterations, which the loop observes through \<^verbatim>\<open>syncState()\<close>.
\<close>

datatype event =
    NewSyncer Vertex
  | StaleSyncer Vertex
  | InitialHistoricalSyncSignal
  | RotateTick
  | HistoricalSyncTick
  | Quit
  | SyncStateChange Vertex syncerState

text \<open>
  The case \<^verbatim>\<open>newSyncers\<close> for a peer without a syncer, from the \<^verbatim>\<open>switch\<close> up to
  \<^verbatim>\<open>close(newSyncer.doneChan)\<close>: classify the syncer, insert it, start it, close the done
  channel. The syncer is returned as the code goes on with it.
\<close>

definition registerSyncer :: "GossipSyncer \<Rightarrow> handler \<Rightarrow> GossipSyncer \<times> handler" where
  "registerSyncer s h =
     (let m = mgr h in
      if len (activeSyncers m) \<ge> NumActiveSyncers (cfg m) \<or> \<not> initialHistoricalSyncCompleted h
      then (let s' = s\<lparr>syncType := PassiveSync\<rparr> in
            (s', h\<lparr>mgr := record_call CloseDone (record_call (Start (peerPub s'))
                   (m\<lparr>inactiveSyncers := (inactiveSyncers m)(peerPub s' \<mapsto> s')\<rparr>))\<rparr>))
      else (let s' = s\<lparr>syncType := ActiveSync\<rparr> in
            (s', h\<lparr>mgr := record_call CloseDone (record_call (Start (peerPub s'))
                   (m\<lparr>activeSyncers := (activeSyncers m)(peerPub s' \<mapsto> s')\<rparr>))\<rparr>)))"

text \<open>The rest of the case, after the done channel is closed.\<close>

definition attemptHistoricalSync :: "env \<Rightarrow> GossipSyncer \<Rightarrow> handler \<Rightarrow> handler" where
  "attemptHistoricalSync e s h =
     (if \<not> attemptInitialHistoricalSync h then h
      else (case historicalSync e s (mgr h) of
              (Some err, m') \<Rightarrow> h\<lparr>mgr := m'\<rparr>
            | (None, m') \<Rightarrow>
                h\<lparr>mgr := record_call (CallResetSyncedSignal (peerPub s)) m',
                  attemptInitialHistoricalSync := False,
                  initialHistoricalSyncer := Some s,
                  initialHistoricalSyncSignal := Some (peerPub s)\<rparr>))"

definition handleNewSyncer :: "env \<Rightarrow> Vertex \<Rightarrow> handler \<Rightarrow> handler" where
  "handleNewSyncer e peer h =
     (case gossipSyncer (mgr h) peer of
        Some _ \<Rightarrow> h\<lparr>mgr := record_call CloseDone (mgr h)\<rparr>
      | None \<Rightarrow>
          (case registerSyncer (createGossipSyncer peer) h of
             (s, h1) \<Rightarrow> attemptHistoricalSync e s h1))"

definition handleStaleSyncer :: "env \<Rightarrow> Vertex \<Rightarrow> handler \<Rightarrow> handler" where
  "handleStaleSyncer e peer h =
     (let h1 = h\<lparr>mgr := record_call CloseDone (removeGossipSyncer e peer (mgr h))\<rparr> in
      case initialHistoricalSyncer h1 of
        None \<Rightarrow> h1
      | Some ihs \<Rightarrow>
          if peer \<noteq> peerPub ihs then h1
          else (case forceHistoricalSync e 1 (mgr h1) of
                  (None, m') \<Rightarrow> h1\<lparr>mgr := m', attemptInitialHistoricalSync := True\<rparr>
                | (Some s, m') \<Rightarrow>
                    h1\<lparr>mgr := record_call (CallResetSyncedSignal (peerPub s)) m',
                       initialHistoricalSyncer := Some s,
                       initialHistoricalSyncSignal := Some (peerPub s)\<rparr>))"

text \<open>
  \<^verbatim>\<open>for i := 0; i < numActiveLeft; i++ { chooseRandomSyncer(m.inactiveSyncers,
  m.transitionPassiveSyncer) }\<close>
\<close>

function promoteLoop :: "env \<Rightarrow> int \<Rightarrow> int \<Rightarrow> SyncManager \<Rightarrow> SyncManager" where
  "promoteLoop e i numActiveLeft m =
     (if i < numActiveLeft
      then promoteLoop e (i + 1) numActiveLeft
             (snd (chooseRandomSyncer e (nat i) (inactiveSyncers m)
                     (Some (transitionPassiveSyncer e (nat i))) m))
      else m)"
  by pat_completeness auto
termination
  by (relation "measure (\<lambda>(e, i, n, m). nat (n - i))") auto

declare promoteLoop.simps [simp del]

text \<open>
  The case of the initial historical sync signal. A receive from the \<^verbatim>\<open>nil\<close> channel is
  never ready, so without a signal the case does not run. The subtraction is Go's on
  \<^verbatim>\<open>int\<close>; it cannot wrap around, as the active map has at most \<open>max 0 K\<close> entries
  (lemma \<open>syncerHandler_registry_inv\<close> below).
\<close>

definition handleInitialHistoricalSyncSignal :: "env \<Rightarrow> handler \<Rightarrow> handler" where
  "handleInitialHistoricalSyncSignal e h =
     (case initialHistoricalSyncSignal h of
        None \<Rightarrow> h
      | Some _ \<Rightarrow>
          (let h1 = h\<lparr>initialHistoricalSyncer := None,
                      initialHistoricalSyncSignal := None,
                      initialHistoricalSyncCompleted := True\<rparr>;
               m = mgr h1;
               numActiveLeft = NumActiveSyncers (cfg m) - len (activeSyncers m)
           in if numActiveLeft \<le> 0 then h1
              else h1\<lparr>mgr := promoteLoop e 0 numActiveLeft m\<rparr>))"

definition setSyncState ::
  "Vertex \<Rightarrow> syncerState \<Rightarrow> (Vertex \<rightharpoonup> GossipSyncer) \<Rightarrow> (Vertex \<rightharpoonup> GossipSyncer)" where
  "setSyncState peer st syncers =
     (case syncers peer of
        None \<Rightarrow> syncers
      | Some s \<Rightarrow> syncers(peer \<mapsto> s\<lparr>state := st\<rparr>))"

fun step :: "env \<Rightarrow> event \<Rightarrow> handler \<Rightarrow> handler" where
  "step e (NewSyncer peer) h = handleNewSyncer e peer h"
| "step e (StaleSyncer peer) h = handleStaleSyncer e peer h"
| "step e InitialHistoricalSyncSignal h = handleInitialHistoricalSyncSignal e h"
| "step e RotateTick h = h\<lparr>mgr := rotateActiveSyncerCandidate e (mgr h)\<rparr>"
| "step e HistoricalSyncTick h = h\<lparr>mgr := snd (forceHistoricalSync e 0 (mgr h))\<rparr>"
| "step e Quit h = h"
| "step e (SyncStateChange peer st) h =
     h\<lparr>mgr := (mgr h)\<lparr>activeSyncers := setSyncState peer st (activeSyncers (mgr h)),
                      inactiveSyncers := setSyncState peer st (inactiveSyncers (mgr h))\<rparr>\<rparr>"

text \<open>The loop: it runs the events in order and returns at \<open>Quit\<close>.\<close>

fun handlerLoop :: "(env \<times> event) list \<Rightarrow> handler \<Rightarrow> handler" where
  "handlerLoop [] h = h"
| "handlerLoop ((e, Quit) # rest) h = h"
| "handlerLoop ((e, ev) # rest) h = handlerLoop rest (step e ev h)"

definition initHandler :: "SyncManagerCfg \<Rightarrow> handler" where
  "initHandler c =
     \<lparr>mgr = newSyncManager c,
      attemptInitialHistoricalSync = True,
      initialHistoricalSyncCompleted = False,
      initialHistoricalSyncer = None,
      initialHistoricalSyncSignal = None\<rparr>"

definition syncerHandler :: "SyncManagerCfg \<Rightarrow> (env \<times> event) list \<Rightarrow> handler" where
  "syncerHandler c evs = handlerLoop evs (initHandler c)"

subsection \<open>The public surface, as its callers see it\<close>

text \<open>
  \<^verbatim>\<open>InitSyncState\<close> and \<^verbatim>\<open>PruneSyncState\<close> each run two \<^verbatim>\<open>select\<close>s: the first hands
  the request to the loop or takes the quit case, the second waits for the done channel
  or takes the quit case. A call returns or stays blocked.
\<close>

datatype 'a outcome = Returns 'a | Blocks

text \<open>The calls made since the manager was \<open>m\<close>.\<close>

definition newCalls :: "SyncManager \<Rightarrow> SyncManager \<Rightarrow> call list" where
  "newCalls m m' = drop (length (calls m)) (calls m')"

text \<open>
  \<open>quit1\<close> and \<open>quit2\<close> say whether the first and the second \<^verbatim>\<open>select\<close> take the quit
  case. The loop runs its iteration for the request between the two; the receive from
  the done channel is ready only once the loop has closed it.
\<close>

definition InitSyncState ::
  "bool \<Rightarrow> bool \<Rightarrow> env \<Rightarrow> Vertex \<Rightarrow> handler \<Rightarrow> error option outcome \<times> handler" where
  "InitSyncState quit1 quit2 e peer h =
     (if quit1 then (Returns (Some ErrSyncManagerExiting), h)
      else (let h' = step e (NewSyncer peer) h in
            if quit2 then (Returns (Some ErrSyncManagerExiting), h')
            else if CloseDone \<in> set (newCalls (mgr h) (mgr h')) then (Returns None, h')
            else (Blocks, h')))"

definition PruneSyncState ::
  "bool \<Rightarrow> bool \<Rightarrow> env \<Rightarrow> Vertex \<Rightarrow> handler \<Rightarrow> unit outcome \<times> handler" where
  "PruneSyncState quit1 quit2 e peer h =
     (if quit1 then (Returns (), h)
      else (let h' = step e (StaleSyncer peer) h in
            if quit2 then (Returns (), h')
            else if CloseDone \<in> set (newCalls (mgr h) (mgr h')) then (Returns (), h')
            else (Blocks, h')))"

subsection \<open>Auxiliary notions for the proofs\<close>

text \<open>
  The shape of the registry that the loop keeps: both maps finite, no peer in both, and
  every syncer stored under its own \<open>peerPub\<close>.
\<close>

definition registry_ok :: "SyncManager \<Rightarrow> bool" where
  "registry_ok m =
     (finite (dom (activeSyncers m)) \<and> finite (dom (inactiveSyncers m))
      \<and> dom (activeSyncers m) \<inter> dom (inactiveSyncers m) = {}
      \<and> (\<forall>p s. activeSyncers m p = Some s \<longrightarrow> peerPub s = p)
      \<and> (\<forall>p s. inactiveSyncers m p = Some s \<longrightarrow> peerPub s = p))"

text \<open>The syncer of \<open>p\<close> has moved from the inactive to the active map.\<close>

definition promoted :: "SyncManager \<Rightarrow> Vertex \<Rightarrow> SyncManager \<Rightarrow> bool" where
  "promoted m p m' =
     (\<exists>s'. peerPub s' = p \<and> inactiveSyncers m p \<noteq> None
        \<and> activeSyncers m' = (activeSyncers m)(p \<mapsto> s')
        \<and> inactiveSyncers m' = (inactiveSyncers m)(p := None))"

definition same_registry :: "SyncManager \<Rightarrow> SyncManager \<Rightarrow> bool" where
  "same_registry m m' =
     (cfg m' = cfg m \<and> activeSyncers m' = activeSyncers m \<and> inactiveSyncers m' = inactiveSyncers m)"

definition registered :: "SyncManager \<Rightarrow> Vertex set" where
  "registered m = dom (activeSyncers m) \<union> dom (inactiveSyncers m)"

definition registry_inv :: "SyncManagerCfg \<Rightarrow> handler \<Rightarrow> bool" where
  "registry_inv c h =
     (registry_ok (mgr h) \<and> cfg (mgr h) = c
      \<and> len (activeSyncers (mgr h)) \<le> max 0 (NumActiveSyncers c))"

text \<open>Every registered syncer has been started.\<close>

definition started_inv :: "handler \<Rightarrow> bool" where
  "started_inv h = (\<forall>p \<in> registered (mgr h). Start p \<in> set (calls (mgr h)))"

text \<open>
  What the loop keeps true of its bootstrap variables: while the initial historical sync
  has not completed and no registered peer is recorded as the initial historical syncer,
  the loop attempts an initial historical sync with the next peer.
\<close>

definition rearm_inv :: "handler \<Rightarrow> bool" where
  "rearm_inv h =
     (\<not> initialHistoricalSyncCompleted h
      \<and> (\<forall>s. initialHistoricalSyncer h = Some s \<longrightarrow> peerPub s \<notin> registered (mgr h))
      \<longrightarrow> attemptInitialHistoricalSync h)"

subsection \<open>Concrete environments and runs\<close>

text \<open>
  An environment in which every call of a syncer succeeds and every \<^verbatim>\<open>range\<close> visits
  the peers in increasing order, and one in which no call succeeds.
\<close>

definition calmEnv :: env where
  "calmEnv =
     \<lparr>rangeOrder = (\<lambda>i. [1, 2, 3, 4, 5, 6]),
      transitionErr = (\<lambda>i p t. None),
      historicalErr = (\<lambda>p. None)\<rparr>"

definition failingEnv :: env where
  "failingEnv =
     \<lparr>rangeOrder = (\<lambda>i. [1, 2, 3, 4, 5, 6]),
      transitionErr = (\<lambda>i p t. Some (SyncerError 1)),
      historicalErr = (\<lambda>p. Some (SyncerError 2))\<rparr>"

text \<open>Scenario 4 of the spec with \<open>K = 3\<close>: register 1, its sync completes, register 2 to 5.\<close>

definition scenario4 :: "(env \<times> event) list" where
  "scenario4 =
     [(calmEnv, NewSyncer 1), (calmEnv, InitialHistoricalSyncSignal),
      (calmEnv, NewSyncer 2), (calmEnv, NewSyncer 3), (calmEnv, NewSyncer 4),
      (calmEnv, NewSyncer 5)]"

text \<open>The state after scenario 4: peers 1, 2, 3 active, peers 4 and 5 inactive.\<close>

definition handler4 :: handler where
  "handler4 = syncerHandler \<lparr>NumActiveSyncers = 3\<rparr> scenario4"

definition activeSyncer1 :: GossipSyncer where
  "activeSyncer1 = \<lparr>peerPub = 1, syncType = ActiveSync, state = chansSynced\<rparr>"

definition passiveSyncer4 :: GossipSyncer where
  "passiveSyncer4 = \<lparr>peerPub = 4, syncType = PassiveSync, state = chansSynced\<rparr>"

section \<open>Lemmas about the operations\<close>

lemma rangeMap_mem: "s \<in> set (rangeMap ord syncers) \<Longrightarrow> \<exists>p. syncers p = Some s"
  by (auto simp: rangeMap_def List.map_filter_def)

lemma rangeMap_complete:
  assumes "dom syncers \<subseteq> set ord" and "syncers p = Some s"
  shows "s \<in> set (rangeMap ord syncers)"
proof -
  from assms have "p \<in> set ord" by auto
  with assms(2) have "s \<in> (\<lambda>x. the (syncers x)) ` {x \<in> set ord. syncers x \<noteq> None}"
    by force
  then show ?thesis by (simp add: rangeMap_def List.map_filter_def)
qed

lemma chooseLoop_no_action:
  "chooseLoop ss None m = (find (\<lambda>s. state s = chansSynced) ss, m)"
  by (induction ss) auto

lemma same_registry_refl [simp]: "same_registry m m"
  by (simp add: same_registry_def)

lemma same_registry_record_call [simp]: "same_registry m (record_call c m') = same_registry m m'"
  by (simp add: same_registry_def record_call_def)

lemma transitionPassiveSyncer_err:
  "transitionPassiveSyncer e i s m = (Some err, m') \<Longrightarrow> same_registry m m'"
  by (auto simp: transitionPassiveSyncer_def ProcessSyncTransition_def same_registry_def record_call_def
           split: option.splits)

lemma transitionPassiveSyncer_ok:
  "transitionPassiveSyncer e i s m = (None, m') \<Longrightarrow>
     cfg m' = cfg m
     \<and> activeSyncers m' = (activeSyncers m)(peerPub s \<mapsto> s\<lparr>syncType := ActiveSync\<rparr>)
     \<and> inactiveSyncers m' = (inactiveSyncers m)(peerPub s := None)"
  by (auto simp: transitionPassiveSyncer_def ProcessSyncTransition_def record_call_def
           split: option.splits)

lemma chooseLoop_promote:
  assumes "chooseLoop ss (Some (transitionPassiveSyncer e i)) m = (r, m')"
    and "\<forall>s \<in> set ss. inactiveSyncers m (peerPub s) \<noteq> None"
  shows "cfg m' = cfg m \<and> (same_registry m m' \<or> (\<exists>p. promoted m p m'))"
  using assms
proof (induction ss arbitrary: m)
  case Nil
  then show ?case by simp
next
  case (Cons s ss)
  show ?case
  proof (cases "state s = chansSynced")
    case False
    with Cons show ?thesis by simp
  next
    case True
    obtain r1 m1 where t: "transitionPassiveSyncer e i s m = (r1, m1)"
      by (cases "transitionPassiveSyncer e i s m")
    show ?thesis
    proof (cases r1)
      case None
      with t True Cons.prems have "m' = m1" by simp
      moreover from t None have "cfg m1 = cfg m
        \<and> activeSyncers m1 = (activeSyncers m)(peerPub s \<mapsto> s\<lparr>syncType := ActiveSync\<rparr>)
        \<and> inactiveSyncers m1 = (inactiveSyncers m)(peerPub s := None)"
        using transitionPassiveSyncer_ok by blast
      moreover from Cons.prems have "inactiveSyncers m (peerPub s) \<noteq> None" by simp
      ultimately have "promoted m (peerPub s) m'"
        unfolding promoted_def by (intro exI [of _ "s\<lparr>syncType := ActiveSync\<rparr>"]) simp
      with \<open>m' = m1\<close> \<open>cfg m1 = cfg m \<and> _\<close> show ?thesis by blast
    next
      case (Some err)
      with t have sr: "same_registry m m1" using transitionPassiveSyncer_err by blast
      from t Some True Cons.prems
      have "chooseLoop ss (Some (transitionPassiveSyncer e i)) m1 = (r, m')" by simp
      moreover from sr Cons.prems have "\<forall>s \<in> set ss. inactiveSyncers m1 (peerPub s) \<noteq> None"
        by (simp add: same_registry_def)
      ultimately have "cfg m' = cfg m1 \<and> (same_registry m1 m' \<or> (\<exists>p. promoted m1 p m'))"
        by (rule Cons.IH)
      with sr show ?thesis
        by (auto simp: same_registry_def promoted_def)
    qed
  qed
qed

lemma registry_ok_same: "same_registry m m' \<Longrightarrow> registry_ok m \<Longrightarrow> registry_ok m'"
  by (simp add: same_registry_def registry_ok_def)

lemma registry_ok_promoted:
  assumes "promoted m p m'" and "registry_ok m"
  shows "registry_ok m'"
proof -
  from assms(1) obtain s' where s': "peerPub s' = p"
    and a: "activeSyncers m' = (activeSyncers m)(p \<mapsto> s')"
    and i: "inactiveSyncers m' = (inactiveSyncers m)(p := None)"
    unfolding promoted_def by blast
  from assms(2) have fin: "finite (dom (activeSyncers m))" "finite (dom (inactiveSyncers m))"
    and dis: "dom (activeSyncers m) \<inter> dom (inactiveSyncers m) = {}"
    and ka: "\<forall>q s. activeSyncers m q = Some s \<longrightarrow> peerPub s = q"
    and ki: "\<forall>q s. inactiveSyncers m q = Some s \<longrightarrow> peerPub s = q"
    unfolding registry_ok_def by blast+
  have "finite (dom (activeSyncers m'))" using fin a by simp
  moreover have "finite (dom (inactiveSyncers m'))" using fin i by simp
  moreover have "dom (activeSyncers m') \<inter> dom (inactiveSyncers m') = {}"
    using dis a i by auto
  moreover have "\<forall>q s. activeSyncers m' q = Some s \<longrightarrow> peerPub s = q"
    using ka a s' by auto
  moreover have "\<forall>q s. inactiveSyncers m' q = Some s \<longrightarrow> peerPub s = q"
    using ki i by (auto split: if_splits)
  ultimately show ?thesis unfolding registry_ok_def by blast
qed

lemma len_promoted:
  assumes "promoted m p m'" and "finite (dom (activeSyncers m))"
  shows "len (activeSyncers m') \<le> len (activeSyncers m) + 1"
proof -
  from assms(1) obtain s' where "activeSyncers m' = (activeSyncers m)(p \<mapsto> s')"
    unfolding promoted_def by blast
  then have "dom (activeSyncers m') = insert p (dom (activeSyncers m))" by simp
  with assms(2) show ?thesis
    by (simp add: len_def card_insert_if)
qed

lemma len_same: "same_registry m m' \<Longrightarrow> len (activeSyncers m') = len (activeSyncers m)"
  by (simp add: same_registry_def)

lemma dom_union_promoted:
  assumes "promoted m p m'"
  shows "dom (activeSyncers m') \<union> dom (inactiveSyncers m')
           = dom (activeSyncers m) \<union> dom (inactiveSyncers m)"
  using assms unfolding promoted_def by (auto split: if_splits)

text \<open>One call of chooseRandomSyncer with the promoting action.\<close>

lemma chooseRandomSyncer_promote:
  assumes "chooseRandomSyncer e i (inactiveSyncers m) (Some (transitionPassiveSyncer e j)) m = (r, m')"
    and "registry_ok m"
  shows "cfg m' = cfg m \<and> (same_registry m m' \<or> (\<exists>p. promoted m p m'))"
proof -
  have "\<forall>s \<in> set (rangeMap (rangeOrder e i) (inactiveSyncers m)). inactiveSyncers m (peerPub s) \<noteq> None"
  proof
    fix s assume "s \<in> set (rangeMap (rangeOrder e i) (inactiveSyncers m))"
    then obtain p where "inactiveSyncers m p = Some s" using rangeMap_mem by blast
    moreover with assms(2) have "peerPub s = p" unfolding registry_ok_def by blast
    ultimately show "inactiveSyncers m (peerPub s) \<noteq> None" by simp
  qed
  with assms(1) show ?thesis
    unfolding chooseRandomSyncer_def by (rule chooseLoop_promote)
qed

lemma chooseLoop_historical:
  "chooseLoop ss (Some (historicalSync e)) m = (r, m') \<Longrightarrow>
     same_registry m m'
     \<and> (\<exists>cs. calls m' = calls m @ cs \<and> (\<forall>c \<in> set cs. \<exists>p err. c = CallHistoricalSync p err))
     \<and> (\<forall>s. r = Some s \<longrightarrow> s \<in> set ss \<and> state s = chansSynced \<and> historicalErr e (peerPub s) = None)
     \<and> (r = None \<longrightarrow> (\<forall>s \<in> set ss. state s = chansSynced \<longrightarrow> historicalErr e (peerPub s) \<noteq> None))"
proof (induction ss arbitrary: m)
  case Nil
  then show ?case by simp
next
  case (Cons s ss)
  show ?case
  proof (cases "state s = chansSynced")
    case False
    with Cons.prems have "chooseLoop ss (Some (historicalSync e)) m = (r, m')" by simp
    from Cons.IH [OF this] False show ?thesis by auto
  next
    case True
    show ?thesis
    proof (cases "historicalErr e (peerPub s)")
      case None
      with True Cons.prems show ?thesis
        by (auto simp: historicalSync_def record_call_def same_registry_def)
    next
      case (Some err)
      let ?m1 = "record_call (CallHistoricalSync (peerPub s) (Some err)) m"
      have "historicalSync e s m = (Some err, ?m1)"
        by (simp add: historicalSync_def Some)
      with True Cons.prems have "chooseLoop ss (Some (historicalSync e)) ?m1 = (r, m')"
        by simp
      from Cons.IH [OF this] obtain cs where
        1: "same_registry ?m1 m'" and
        2: "calls m' = calls ?m1 @ cs" "\<forall>c \<in> set cs. \<exists>p err. c = CallHistoricalSync p err" and
        3: "\<forall>s. r = Some s \<longrightarrow> s \<in> set ss \<and> state s = chansSynced \<and> historicalErr e (peerPub s) = None" and
        4: "r = None \<longrightarrow> (\<forall>s \<in> set ss. state s = chansSynced \<longrightarrow> historicalErr e (peerPub s) \<noteq> None)"
        by blast
      from 1 have "same_registry m m'" by (simp add: same_registry_def record_call_def)
      moreover from 2 have "calls m' = calls m @ (CallHistoricalSync (peerPub s) (Some err) # cs)"
        by (simp add: record_call_def)
      moreover from 2 have "\<forall>c \<in> set (CallHistoricalSync (peerPub s) (Some err) # cs). \<exists>p err. c = CallHistoricalSync p err"
        by simp
      ultimately show ?thesis using 3 4 Some by (intro conjI; fastforce)
    qed
  qed
qed

lemma forceHistoricalSync_same:
  "forceHistoricalSync e i m = (r, m') \<Longrightarrow>
     same_registry m m'
     \<and> (\<exists>cs. calls m' = calls m @ cs \<and> (\<forall>c \<in> set cs. \<exists>p err. c = CallHistoricalSync p err))"
  unfolding forceHistoricalSync_def chooseRandomSyncer_def
  using chooseLoop_historical by blast

lemma registry_ok_delete_active:
  "registry_ok m \<Longrightarrow> registry_ok (m\<lparr>activeSyncers := (activeSyncers m)(p := None)\<rparr>)"
  by (auto simp: registry_ok_def split: if_splits)

lemma registry_ok_delete_inactive:
  "registry_ok m \<Longrightarrow> registry_ok (m\<lparr>inactiveSyncers := (inactiveSyncers m)(p := None)\<rparr>)"
  by (auto simp: registry_ok_def split: if_splits)

lemma registry_ok_record_call [simp]: "registry_ok (record_call c m) = registry_ok m"
  by (simp add: registry_ok_def record_call_def)

lemma record_call_fields [simp]:
  "cfg (record_call c m) = cfg m"
  "activeSyncers (record_call c m) = activeSyncers m"
  "inactiveSyncers (record_call c m) = inactiveSyncers m"
  "calls (record_call c m) = calls m @ [c]"
  by (simp_all add: record_call_def)

lemma len_delete:
  assumes "finite (dom syncers)" and "syncers p \<noteq> None"
  shows "len (syncers(p := None)) = len syncers - 1"
proof -
  from assms(2) have "p \<in> dom syncers" by auto
  with assms(1) have "card (dom syncers - {p}) = card (dom syncers) - 1" "card (dom syncers) > 0"
    by (auto simp: card_gt_0_iff)
  then show ?thesis by (simp add: len_def)
qed

lemma removeGossipSyncer_props:
  assumes ok: "registry_ok m"
  shows "registry_ok (removeGossipSyncer e peer m)
       \<and> cfg (removeGossipSyncer e peer m) = cfg m
       \<and> len (activeSyncers (removeGossipSyncer e peer m)) \<le> len (activeSyncers m)
       \<and> dom (activeSyncers (removeGossipSyncer e peer m)) \<union> dom (inactiveSyncers (removeGossipSyncer e peer m))
           = (dom (activeSyncers m) \<union> dom (inactiveSyncers m)) - {peer}"
proof (cases "gossipSyncer m peer")
  case None
  then have "peer \<notin> dom (activeSyncers m) \<union> dom (inactiveSyncers m)"
    by (auto simp: gossipSyncer_def split: option.splits)
  with None ok show ?thesis by (auto simp: removeGossipSyncer_def)
next
  case (Some s)
  show ?thesis
  proof (cases "inactiveSyncers m peer")
    case (Some s1)
    let ?m' = "(record_call (Stop (peerPub s)) m)\<lparr>inactiveSyncers := (inactiveSyncers m)(peer := None)\<rparr>"
    from Some \<open>gossipSyncer m peer = Some s\<close>
    have r: "removeGossipSyncer e peer m = ?m'"
      by (simp add: removeGossipSyncer_def Let_def)
    from ok have "registry_ok (record_call (Stop (peerPub s)) m)" by simp
    then have "registry_ok ?m'" using registry_ok_delete_inactive [of "record_call (Stop (peerPub s)) m" peer]
      by simp
    moreover from ok Some have "peer \<notin> dom (activeSyncers m)"
      by (auto simp: registry_ok_def)
    ultimately show ?thesis unfolding r by auto
  next
    case None
    with \<open>gossipSyncer m peer = Some s\<close> have act: "activeSyncers m peer = Some s"
      by (simp add: gossipSyncer_def split: option.splits)
    let ?m2 = "(record_call (Stop (peerPub s)) m)\<lparr>activeSyncers := (activeSyncers m)(peer := None)\<rparr>"
    obtain r m' where c: "chooseRandomSyncer e 0 (inactiveSyncers ?m2) (Some (transitionPassiveSyncer e 0)) ?m2 = (r, m')"
      by (cases "chooseRandomSyncer e 0 (inactiveSyncers ?m2) (Some (transitionPassiveSyncer e 0)) ?m2")
    from None \<open>gossipSyncer m peer = Some s\<close> c
    have rm: "removeGossipSyncer e peer m = m'"
      by (simp add: removeGossipSyncer_def Let_def)
    from ok have "registry_ok (record_call (Stop (peerPub s)) m)" by simp
    then have ok2: "registry_ok ?m2"
      using registry_ok_delete_active [of "record_call (Stop (peerPub s)) m" peer] by simp
    from ok have fin: "finite (dom (activeSyncers m))" by (simp add: registry_ok_def)
    have len2: "len (activeSyncers ?m2) = len (activeSyncers m) - 1"
      using len_delete [OF fin, of peer] act by simp
    have dom2: "dom (activeSyncers ?m2) \<union> dom (inactiveSyncers ?m2)
                  = (dom (activeSyncers m) \<union> dom (inactiveSyncers m)) - {peer}"
      using None by auto
    from chooseRandomSyncer_promote [OF c ok2]
    have cfg': "cfg m' = cfg ?m2" and alt: "same_registry ?m2 m' \<or> (\<exists>p. promoted ?m2 p m')"
      by blast+
    from alt show ?thesis
    proof
      assume sr: "same_registry ?m2 m'"
      then have "registry_ok m'" using ok2 registry_ok_same by blast
      moreover from sr have "len (activeSyncers m') = len (activeSyncers ?m2)" by (rule len_same)
      moreover from sr dom2 have "dom (activeSyncers m') \<union> dom (inactiveSyncers m')
                  = (dom (activeSyncers m) \<union> dom (inactiveSyncers m)) - {peer}"
        by (simp add: same_registry_def)
      ultimately show ?thesis unfolding rm using cfg' len2 by simp
    next
      assume "\<exists>p. promoted ?m2 p m'"
      then obtain p where pr: "promoted ?m2 p m'" ..
      then have "registry_ok m'" using ok2 registry_ok_promoted by blast
      moreover from ok2 have "finite (dom (activeSyncers ?m2))" by (simp add: registry_ok_def)
      with pr have "len (activeSyncers m') \<le> len (activeSyncers ?m2) + 1" by (rule len_promoted)
      moreover from dom_union_promoted [OF pr] dom2
      have "dom (activeSyncers m') \<union> dom (inactiveSyncers m')
                  = (dom (activeSyncers m) \<union> dom (inactiveSyncers m)) - {peer}"
        by simp
      ultimately show ?thesis unfolding rm using cfg' len2 by simp
    qed
  qed
qed

lemma promoteLoop_props:
  "registry_ok m \<Longrightarrow>
     registry_ok (promoteLoop e i n m)
     \<and> cfg (promoteLoop e i n m) = cfg m
     \<and> len (activeSyncers (promoteLoop e i n m)) \<le> len (activeSyncers m) + max 0 (n - i)
     \<and> dom (activeSyncers (promoteLoop e i n m)) \<union> dom (inactiveSyncers (promoteLoop e i n m))
         = dom (activeSyncers m) \<union> dom (inactiveSyncers m)"
proof (induction e i n m rule: promoteLoop.induct)
  case (1 e i n m)
  show ?case
  proof (cases "i < n")
    case False
    then show ?thesis using "1.prems" by (simp add: promoteLoop.simps [of e i n m])
  next
    case True
    obtain r m1 where c: "chooseRandomSyncer e (nat i) (inactiveSyncers m) (Some (transitionPassiveSyncer e (nat i))) m = (r, m1)"
      by (cases "chooseRandomSyncer e (nat i) (inactiveSyncers m) (Some (transitionPassiveSyncer e (nat i))) m")
    from True c have unf: "promoteLoop e i n m = promoteLoop e (i + 1) n m1"
      by (simp add: promoteLoop.simps [of e i n m])
    from chooseRandomSyncer_promote [OF c "1.prems"]
    have cfg1: "cfg m1 = cfg m" and alt: "same_registry m m1 \<or> (\<exists>p. promoted m p m1)" by blast+
    from "1.prems" have fin: "finite (dom (activeSyncers m))" by (simp add: registry_ok_def)
    from alt have ok1: "registry_ok m1"
      using "1.prems" registry_ok_same registry_ok_promoted by blast
    from alt have len1: "len (activeSyncers m1) \<le> len (activeSyncers m) + 1"
      using len_same len_promoted [OF _ fin] by fastforce
    have dom1: "dom (activeSyncers m1) \<union> dom (inactiveSyncers m1)
         = dom (activeSyncers m) \<union> dom (inactiveSyncers m)"
    proof (rule disjE [OF alt])
      assume "same_registry m m1"
      then show ?thesis by (simp add: same_registry_def)
    next
      assume "\<exists>p. promoted m p m1"
      then obtain p where "promoted m p m1" ..
      then show ?thesis by (rule dom_union_promoted)
    qed
    from c have m1: "m1 = snd (chooseRandomSyncer e (nat i) (inactiveSyncers m) (Some (transitionPassiveSyncer e (nat i))) m)"
      by simp
    from "1.IH" [OF True] ok1 m1
    have IH: "registry_ok (promoteLoop e (i + 1) n m1)
     \<and> cfg (promoteLoop e (i + 1) n m1) = cfg m1
     \<and> len (activeSyncers (promoteLoop e (i + 1) n m1)) \<le> len (activeSyncers m1) + max 0 (n - (i + 1))
     \<and> dom (activeSyncers (promoteLoop e (i + 1) n m1)) \<union> dom (inactiveSyncers (promoteLoop e (i + 1) n m1))
         = dom (activeSyncers m1) \<union> dom (inactiveSyncers m1)"
      by simp
    with cfg1 len1 dom1 True show ?thesis unfolding unf by auto
  qed
qed



lemma rotate_unfold:
  "rotateActiveSyncerCandidate e m =
     (case find (\<lambda>s. state s = chansSynced) (rangeMap (rangeOrder e 0) (activeSyncers m)) of
        None \<Rightarrow> m
      | Some A \<Rightarrow>
         (case find (\<lambda>s. state s = chansSynced) (rangeMap (rangeOrder e 1) (inactiveSyncers m)) of
            None \<Rightarrow> m
          | Some B \<Rightarrow>
             (case transitionErr e 0 (peerPub A) PassiveSync of
                Some err \<Rightarrow> record_call (CallProcessSyncTransition (peerPub A) PassiveSync (Some err)) m
              | None \<Rightarrow>
                 (let m1 = record_call (CallProcessSyncTransition (peerPub A) PassiveSync None)
                             (m\<lparr>activeSyncers := (activeSyncers m)(peerPub A := None),
                                inactiveSyncers := (inactiveSyncers m)(peerPub A \<mapsto> A\<lparr>syncType := PassiveSync\<rparr>)\<rparr>)
                  in case transitionErr e 0 (peerPub B) ActiveSync of
                       Some err \<Rightarrow> record_call (CallProcessSyncTransition (peerPub B) ActiveSync (Some err)) m1
                     | None \<Rightarrow>
                         record_call (CallProcessSyncTransition (peerPub B) ActiveSync None)
                           (m1\<lparr>inactiveSyncers := (inactiveSyncers m1)(peerPub B := None),
                               activeSyncers := (activeSyncers m1)(peerPub B \<mapsto> B\<lparr>syncType := ActiveSync\<rparr>)\<rparr>)))))"
  by (simp add: rotateActiveSyncerCandidate_def chooseRandomSyncer_def chooseLoop_no_action
        transitionActiveSyncer_def transitionPassiveSyncer_def ProcessSyncTransition_def Let_def
      split: option.splits)

lemma rotate_none:
  assumes "find (\<lambda>s. state s = chansSynced) (rangeMap (rangeOrder e 0) (activeSyncers m)) = None
         \<or> find (\<lambda>s. state s = chansSynced) (rangeMap (rangeOrder e 1) (inactiveSyncers m)) = None"
  shows "rotateActiveSyncerCandidate e m = m"
  using assms by (auto simp: rotate_unfold split: option.splits)

lemma rotate_first_fails:
  assumes "find (\<lambda>s. state s = chansSynced) (rangeMap (rangeOrder e 0) (activeSyncers m)) = Some A"
   and "find (\<lambda>s. state s = chansSynced) (rangeMap (rangeOrder e 1) (inactiveSyncers m)) = Some B"
   and "peerPub A = pa"
   and "transitionErr e 0 pa PassiveSync = Some err"
  shows "rotateActiveSyncerCandidate e m
           = record_call (CallProcessSyncTransition pa PassiveSync (Some err)) m"
  using assms by (simp add: rotate_unfold)

lemma rotate_second_fails:
  assumes "find (\<lambda>s. state s = chansSynced) (rangeMap (rangeOrder e 0) (activeSyncers m)) = Some A"
   and "find (\<lambda>s. state s = chansSynced) (rangeMap (rangeOrder e 1) (inactiveSyncers m)) = Some B"
   and "peerPub A = pa" and "peerPub B = pb"
   and "transitionErr e 0 pa PassiveSync = None"
   and "transitionErr e 0 pb ActiveSync = Some err"
  shows "rotateActiveSyncerCandidate e m =
           record_call (CallProcessSyncTransition pb ActiveSync (Some err))
             (record_call (CallProcessSyncTransition pa PassiveSync None)
                (m\<lparr>activeSyncers := (activeSyncers m)(pa := None),
                   inactiveSyncers := (inactiveSyncers m)(pa \<mapsto> A\<lparr>syncType := PassiveSync\<rparr>)\<rparr>))"
  using assms by (simp add: rotate_unfold Let_def)

lemma rotate_both_succeed:
  assumes "find (\<lambda>s. state s = chansSynced) (rangeMap (rangeOrder e 0) (activeSyncers m)) = Some A"
   and "find (\<lambda>s. state s = chansSynced) (rangeMap (rangeOrder e 1) (inactiveSyncers m)) = Some B"
   and "peerPub A = pa" and "peerPub B = pb"
   and "transitionErr e 0 pa PassiveSync = None"
   and "transitionErr e 0 pb ActiveSync = None"
  shows "rotateActiveSyncerCandidate e m =
           record_call (CallProcessSyncTransition pb ActiveSync None)
             (record_call (CallProcessSyncTransition pa PassiveSync None)
                (m\<lparr>activeSyncers := (activeSyncers m)(pa := None, pb \<mapsto> B\<lparr>syncType := ActiveSync\<rparr>),
                   inactiveSyncers := (inactiveSyncers m)(pa \<mapsto> A\<lparr>syncType := PassiveSync\<rparr>, pb := None)\<rparr>))"
  using assms by (simp add: rotate_unfold Let_def record_call_def)

lemma find_Some_mem: "find P xs = Some x \<Longrightarrow> P x \<and> x \<in> set xs"
  by (induction xs) (auto split: if_splits)

lemma find_rangeMap:
  assumes "find (\<lambda>s. state s = chansSynced) (rangeMap ord syncers) = Some s"
  shows "state s = chansSynced \<and> (\<exists>p. syncers p = Some s)"
proof -
  from assms have "state s = chansSynced" "s \<in> set (rangeMap ord syncers)"
    using find_Some_mem [of "\<lambda>s. state s = chansSynced"] by blast+
  then show ?thesis using rangeMap_mem by blast
qed

text \<open>Moving one syncer each way.\<close>

lemma swap_props:
  assumes ok: "registry_ok m"
    and A: "activeSyncers m pa = Some A" and B: "inactiveSyncers m pb = Some B"
    and A': "peerPub A' = pa" and B': "peerPub B' = pb"
    and m': "activeSyncers m' = (activeSyncers m)(pa := None, pb \<mapsto> B')"
            "inactiveSyncers m' = (inactiveSyncers m)(pa \<mapsto> A', pb := None)"
  shows "registry_ok m'"
    and "len (activeSyncers m') = len (activeSyncers m)"
    and "dom (activeSyncers m') \<union> dom (inactiveSyncers m')
           = dom (activeSyncers m) \<union> dom (inactiveSyncers m)"
proof -
  from ok have fin: "finite (dom (activeSyncers m))" "finite (dom (inactiveSyncers m))"
    and dis: "dom (activeSyncers m) \<inter> dom (inactiveSyncers m) = {}"
    and ka: "\<forall>q s. activeSyncers m q = Some s \<longrightarrow> peerPub s = q"
    and ki: "\<forall>q s. inactiveSyncers m q = Some s \<longrightarrow> peerPub s = q"
    unfolding registry_ok_def by blast+
  from A B dis have neq: "pa \<noteq> pb" by auto
  from B dis have nb: "pb \<notin> dom (activeSyncers m)" by auto
  from A have ia: "pa \<in> dom (activeSyncers m)" by auto
  have da: "dom (activeSyncers m') = insert pb (dom (activeSyncers m) - {pa})"
    unfolding m' using neq by auto
  have di: "dom (inactiveSyncers m') = insert pa (dom (inactiveSyncers m) - {pb})"
    unfolding m' using neq by auto
  have "dom (activeSyncers m') \<inter> dom (inactiveSyncers m') = {}"
    unfolding da di using dis neq nb by auto
  moreover have "\<forall>q s. activeSyncers m' q = Some s \<longrightarrow> peerPub s = q"
    unfolding m' using ka B' by (auto split: if_splits)
  moreover have "\<forall>q s. inactiveSyncers m' q = Some s \<longrightarrow> peerPub s = q"
    unfolding m' using ki A' by (auto split: if_splits)
  moreover have "finite (dom (activeSyncers m'))" "finite (dom (inactiveSyncers m'))"
    unfolding da di using fin by simp_all
  ultimately show "registry_ok m'" unfolding registry_ok_def by blast
  have "card (insert pb (dom (activeSyncers m) - {pa})) = card (dom (activeSyncers m))"
  proof -
    from fin ia have "card (dom (activeSyncers m)) > 0" by (auto simp: card_gt_0_iff)
    with fin ia nb show ?thesis by simp
  qed
  then show "len (activeSyncers m') = len (activeSyncers m)"
    unfolding len_def da by simp
  show "dom (activeSyncers m') \<union> dom (inactiveSyncers m')
           = dom (activeSyncers m) \<union> dom (inactiveSyncers m)"
    unfolding da di using A B by auto
qed

lemma demote_props:
  assumes ok: "registry_ok m"
    and A: "activeSyncers m pa = Some A"
    and A': "peerPub A' = pa"
    and m': "activeSyncers m' = (activeSyncers m)(pa := None)"
            "inactiveSyncers m' = (inactiveSyncers m)(pa \<mapsto> A')"
  shows "registry_ok m'"
    and "len (activeSyncers m') = len (activeSyncers m) - 1"
    and "dom (activeSyncers m') \<union> dom (inactiveSyncers m')
           = dom (activeSyncers m) \<union> dom (inactiveSyncers m)"
proof -
  from ok have fin: "finite (dom (activeSyncers m))" "finite (dom (inactiveSyncers m))"
    and dis: "dom (activeSyncers m) \<inter> dom (inactiveSyncers m) = {}"
    and ka: "\<forall>q s. activeSyncers m q = Some s \<longrightarrow> peerPub s = q"
    and ki: "\<forall>q s. inactiveSyncers m q = Some s \<longrightarrow> peerPub s = q"
    unfolding registry_ok_def by blast+
  have "dom (activeSyncers m') \<inter> dom (inactiveSyncers m') = {}"
    unfolding m' using dis by auto
  moreover have "\<forall>q s. activeSyncers m' q = Some s \<longrightarrow> peerPub s = q"
    unfolding m' using ka by (auto split: if_splits)
  moreover have "\<forall>q s. inactiveSyncers m' q = Some s \<longrightarrow> peerPub s = q"
    unfolding m' using ki A' by (auto split: if_splits)
  moreover have "finite (dom (activeSyncers m'))" "finite (dom (inactiveSyncers m'))"
    unfolding m' using fin by simp_all
  ultimately show "registry_ok m'" unfolding registry_ok_def by blast
  show "len (activeSyncers m') = len (activeSyncers m) - 1"
    unfolding m' using len_delete [OF fin(1), of pa] A by simp
  show "dom (activeSyncers m') \<union> dom (inactiveSyncers m')
           = dom (activeSyncers m) \<union> dom (inactiveSyncers m)"
    unfolding m' using A by auto
qed



lemma rotate_props:
  assumes ok: "registry_ok m"
  shows "registry_ok (rotateActiveSyncerCandidate e m)
       \<and> cfg (rotateActiveSyncerCandidate e m) = cfg m
       \<and> len (activeSyncers (rotateActiveSyncerCandidate e m)) \<le> len (activeSyncers m)
       \<and> dom (activeSyncers (rotateActiveSyncerCandidate e m)) \<union> dom (inactiveSyncers (rotateActiveSyncerCandidate e m))
           = dom (activeSyncers m) \<union> dom (inactiveSyncers m)"
proof (cases "find (\<lambda>s. state s = chansSynced) (rangeMap (rangeOrder e 0) (activeSyncers m))")
  case None
  then have "rotateActiveSyncerCandidate e m = m" by (simp add: rotate_none)
  with ok show ?thesis by simp
next
  case fa: (Some A)
  then obtain pa where A: "activeSyncers m pa = Some A" using find_rangeMap by blast
  with ok have pa: "peerPub A = pa" by (auto simp: registry_ok_def)
  show ?thesis
  proof (cases "find (\<lambda>s. state s = chansSynced) (rangeMap (rangeOrder e 1) (inactiveSyncers m))")
    case None
    then have "rotateActiveSyncerCandidate e m = m" by (simp add: rotate_none)
    with ok show ?thesis by simp
  next
    case fb: (Some B)
    then obtain pb where B: "inactiveSyncers m pb = Some B" using find_rangeMap by blast
    with ok have pb: "peerPub B = pb" by (auto simp: registry_ok_def)
    show ?thesis
    proof (cases "transitionErr e 0 pa PassiveSync")
      case (Some err)
      from rotate_first_fails [OF fa fb pa Some] ok show ?thesis by simp
    next
      case ta: None
      show ?thesis
      proof (cases "transitionErr e 0 pb ActiveSync")
        case (Some err)
        note rot = rotate_second_fails [OF fa fb pa pb ta Some]
        have 1: "activeSyncers (rotateActiveSyncerCandidate e m) = (activeSyncers m)(pa := None)"
          and 2: "inactiveSyncers (rotateActiveSyncerCandidate e m) = (inactiveSyncers m)(pa \<mapsto> A\<lparr>syncType := PassiveSync\<rparr>)"
          and 3: "cfg (rotateActiveSyncerCandidate e m) = cfg m"
          by (simp_all add: rot)
        have 4: "peerPub (A\<lparr>syncType := PassiveSync\<rparr>) = pa" using pa by simp
        from demote_props [OF ok A 4 1 2] 3 show ?thesis by simp
      next
        case None
        note rot = rotate_both_succeed [OF fa fb pa pb ta None]
        have 1: "activeSyncers (rotateActiveSyncerCandidate e m) = (activeSyncers m)(pa := None, pb \<mapsto> B\<lparr>syncType := ActiveSync\<rparr>)"
          and 2: "inactiveSyncers (rotateActiveSyncerCandidate e m) = (inactiveSyncers m)(pa \<mapsto> A\<lparr>syncType := PassiveSync\<rparr>, pb := None)"
          and 3: "cfg (rotateActiveSyncerCandidate e m) = cfg m"
          by (simp_all add: rot)
        have 4: "peerPub (A\<lparr>syncType := PassiveSync\<rparr>) = pa" using pa by simp
        have 5: "peerPub (B\<lparr>syncType := ActiveSync\<rparr>) = pb" using pb by simp
        from swap_props [OF ok A B 4 5 1 2] 3 show ?thesis by simp
      qed
    qed
  qed
qed



lemma attemptHistoricalSync_same:
  "same_registry (mgr h) (mgr (attemptHistoricalSync e s h))"
  by (simp add: attemptHistoricalSync_def historicalSync_def same_registry_def split: option.splits)

lemma registry_ok_insert_inactive:
  assumes "registry_ok m" and "gossipSyncer m p = None" and "peerPub s = p"
  shows "registry_ok (m\<lparr>inactiveSyncers := (inactiveSyncers m)(p \<mapsto> s)\<rparr>)"
  using assms unfolding registry_ok_def gossipSyncer_def
  by (auto split: option.splits if_splits)

lemma registry_ok_insert_active:
  assumes "registry_ok m" and "gossipSyncer m p = None" and "peerPub s = p"
  shows "registry_ok (m\<lparr>activeSyncers := (activeSyncers m)(p \<mapsto> s)\<rparr>)"
  using assms unfolding registry_ok_def gossipSyncer_def
  by (auto split: option.splits if_splits)

lemma len_insert:
  assumes "finite (dom syncers)"
  shows "len (syncers(p \<mapsto> s)) \<le> len syncers + 1"
  using assms by (simp add: len_def card_insert_if)

lemma registerSyncer_props:
  assumes ok: "registry_ok (mgr h)" and new: "gossipSyncer (mgr h) (peerPub s) = None"
  shows "registry_ok (mgr (snd (registerSyncer s h)))
       \<and> cfg (mgr (snd (registerSyncer s h))) = cfg (mgr h)
       \<and> len (activeSyncers (mgr (snd (registerSyncer s h))))
            \<le> max (len (activeSyncers (mgr h))) (NumActiveSyncers (cfg (mgr h)))
       \<and> dom (activeSyncers (mgr (snd (registerSyncer s h)))) \<union> dom (inactiveSyncers (mgr (snd (registerSyncer s h))))
            = insert (peerPub s) (dom (activeSyncers (mgr h)) \<union> dom (inactiveSyncers (mgr h)))"
proof (cases "len (activeSyncers (mgr h)) \<ge> NumActiveSyncers (cfg (mgr h)) \<or> \<not> initialHistoricalSyncCompleted h")
  case True
  let ?m' = "(mgr h)\<lparr>inactiveSyncers := (inactiveSyncers (mgr h))(peerPub s \<mapsto> s\<lparr>syncType := PassiveSync\<rparr>)\<rparr>"
  from True have r: "mgr (snd (registerSyncer s h))
      = record_call CloseDone (record_call (Start (peerPub s)) ?m')"
    by (simp add: registerSyncer_def Let_def)
  have "registry_ok ?m'"
    using registry_ok_insert_inactive [OF ok new, of "s\<lparr>syncType := PassiveSync\<rparr>"] by simp
  then show ?thesis unfolding r by auto
next
  case False
  let ?m' = "(mgr h)\<lparr>activeSyncers := (activeSyncers (mgr h))(peerPub s \<mapsto> s\<lparr>syncType := ActiveSync\<rparr>)\<rparr>"
  from False have r: "mgr (snd (registerSyncer s h))
      = record_call CloseDone (record_call (Start (peerPub s)) ?m')"
    by (simp add: registerSyncer_def Let_def)
  have "registry_ok ?m'"
    using registry_ok_insert_active [OF ok new, of "s\<lparr>syncType := ActiveSync\<rparr>"] by simp
  moreover from ok have "finite (dom (activeSyncers (mgr h)))" by (simp add: registry_ok_def)
  then have "len (activeSyncers ?m') \<le> len (activeSyncers (mgr h)) + 1"
    using len_insert by simp
  with False have "len (activeSyncers ?m') \<le> NumActiveSyncers (cfg (mgr h))" by simp
  ultimately show ?thesis unfolding r by auto
qed

lemma handleNewSyncer_props:
  assumes ok: "registry_ok (mgr h)"
  shows "registry_ok (mgr (handleNewSyncer e peer h))
       \<and> cfg (mgr (handleNewSyncer e peer h)) = cfg (mgr h)
       \<and> len (activeSyncers (mgr (handleNewSyncer e peer h)))
            \<le> max (len (activeSyncers (mgr h))) (NumActiveSyncers (cfg (mgr h)))
       \<and> dom (activeSyncers (mgr (handleNewSyncer e peer h))) \<union> dom (inactiveSyncers (mgr (handleNewSyncer e peer h)))
            = insert peer (dom (activeSyncers (mgr h)) \<union> dom (inactiveSyncers (mgr h)))"
proof (cases "gossipSyncer (mgr h) peer")
  case (Some s)
  then have "peer \<in> dom (activeSyncers (mgr h)) \<union> dom (inactiveSyncers (mgr h))"
    by (auto simp: gossipSyncer_def split: option.splits)
  with Some ok show ?thesis by (auto simp: handleNewSyncer_def)
next
  case None
  let ?s = "createGossipSyncer peer"
  have p: "peerPub ?s = peer" by (simp add: createGossipSyncer_def)
  obtain s' h1 where r: "registerSyncer ?s h = (s', h1)" by (cases "registerSyncer ?s h")
  with None have hn: "handleNewSyncer e peer h = attemptHistoricalSync e s' h1"
    by (simp add: handleNewSyncer_def)
  from None p have "gossipSyncer (mgr h) (peerPub ?s) = None" by simp
  from registerSyncer_props [OF ok this] r p
  have 1: "registry_ok (mgr h1)" "cfg (mgr h1) = cfg (mgr h)"
    "len (activeSyncers (mgr h1)) \<le> max (len (activeSyncers (mgr h))) (NumActiveSyncers (cfg (mgr h)))"
    "dom (activeSyncers (mgr h1)) \<union> dom (inactiveSyncers (mgr h1))
            = insert peer (dom (activeSyncers (mgr h)) \<union> dom (inactiveSyncers (mgr h)))"
    by simp_all
  have sr: "same_registry (mgr h1) (mgr (attemptHistoricalSync e s' h1))"
    by (rule attemptHistoricalSync_same)
  then have "registry_ok (mgr (attemptHistoricalSync e s' h1))"
    using 1(1) registry_ok_same by blast
  with sr 1 show ?thesis unfolding hn by (simp add: same_registry_def)
qed

lemma handleStaleSyncer_props:
  assumes ok: "registry_ok (mgr h)"
  shows "registry_ok (mgr (handleStaleSyncer e peer h))
       \<and> cfg (mgr (handleStaleSyncer e peer h)) = cfg (mgr h)
       \<and> len (activeSyncers (mgr (handleStaleSyncer e peer h))) \<le> len (activeSyncers (mgr h))
       \<and> dom (activeSyncers (mgr (handleStaleSyncer e peer h))) \<union> dom (inactiveSyncers (mgr (handleStaleSyncer e peer h)))
            = (dom (activeSyncers (mgr h)) \<union> dom (inactiveSyncers (mgr h))) - {peer}"
proof -
  let ?m1 = "record_call CloseDone (removeGossipSyncer e peer (mgr h))"
  obtain r m2 where f: "forceHistoricalSync e 1 ?m1 = (r, m2)"
    by (cases "forceHistoricalSync e 1 ?m1")
  then have sr: "same_registry ?m1 m2" using forceHistoricalSync_same by blast
  have "same_registry ?m1 (mgr (handleStaleSyncer e peer h))"
    using sr f by (auto simp: handleStaleSyncer_def Let_def same_registry_def split: option.splits)
  then have sr': "same_registry (removeGossipSyncer e peer (mgr h)) (mgr (handleStaleSyncer e peer h))"
    by (simp add: same_registry_def)
  from sr' have eq: "cfg (mgr (handleStaleSyncer e peer h)) = cfg (removeGossipSyncer e peer (mgr h))"
    "activeSyncers (mgr (handleStaleSyncer e peer h)) = activeSyncers (removeGossipSyncer e peer (mgr h))"
    "inactiveSyncers (mgr (handleStaleSyncer e peer h)) = inactiveSyncers (removeGossipSyncer e peer (mgr h))"
    unfolding same_registry_def by blast+
  note rp = removeGossipSyncer_props [OF ok, of e peer]
  from rp have "registry_ok (removeGossipSyncer e peer (mgr h))" by blast
  with sr' have "registry_ok (mgr (handleStaleSyncer e peer h))"
    by (rule registry_ok_same)
  with rp show ?thesis unfolding eq by blast
qed



lemma handleInitialHistoricalSyncSignal_props:
  assumes ok: "registry_ok (mgr h)"
  shows "registry_ok (mgr (handleInitialHistoricalSyncSignal e h))
       \<and> cfg (mgr (handleInitialHistoricalSyncSignal e h)) = cfg (mgr h)
       \<and> len (activeSyncers (mgr (handleInitialHistoricalSyncSignal e h)))
            \<le> max (len (activeSyncers (mgr h))) (NumActiveSyncers (cfg (mgr h)))
       \<and> dom (activeSyncers (mgr (handleInitialHistoricalSyncSignal e h))) \<union> dom (inactiveSyncers (mgr (handleInitialHistoricalSyncSignal e h)))
            = dom (activeSyncers (mgr h)) \<union> dom (inactiveSyncers (mgr h))"
proof (cases "initialHistoricalSyncSignal h")
  case None
  with ok show ?thesis by (simp add: handleInitialHistoricalSyncSignal_def)
next
  case (Some sig)
  let ?n = "NumActiveSyncers (cfg (mgr h)) - len (activeSyncers (mgr h))"
  show ?thesis
  proof (cases "?n \<le> 0")
    case True
    with Some ok show ?thesis by (simp add: handleInitialHistoricalSyncSignal_def Let_def)
  next
    case False
    with Some have r: "mgr (handleInitialHistoricalSyncSignal e h) = promoteLoop e 0 ?n (mgr h)"
      by (simp add: handleInitialHistoricalSyncSignal_def Let_def)
    from promoteLoop_props [OF ok, of e 0 ?n] False show ?thesis unfolding r by auto
  qed
qed

lemma dom_setSyncState [simp]: "dom (setSyncState peer st syncers) = dom syncers"
  by (auto simp: setSyncState_def split: option.splits if_splits)

lemma setSyncState_peerPub:
  "setSyncState peer st syncers p = Some s \<Longrightarrow> \<exists>s0. syncers p = Some s0 \<and> peerPub s = peerPub s0"
  by (auto simp: setSyncState_def split: option.splits if_splits)

lemma registry_ok_setSyncState:
  assumes "registry_ok m"
  shows "registry_ok (m\<lparr>activeSyncers := setSyncState peer st (activeSyncers m),
                        inactiveSyncers := setSyncState peer st (inactiveSyncers m)\<rparr>)"
  using assms unfolding registry_ok_def
  by (auto dest!: setSyncState_peerPub)

lemma len_setSyncState [simp]: "len (setSyncState peer st syncers) = len syncers"
  by (simp add: len_def)

lemma step_props:
  assumes ok: "registry_ok (mgr h)"
  shows "registry_ok (mgr (step e ev h))
       \<and> cfg (mgr (step e ev h)) = cfg (mgr h)
       \<and> len (activeSyncers (mgr (step e ev h)))
            \<le> max (len (activeSyncers (mgr h))) (NumActiveSyncers (cfg (mgr h)))"
proof (cases ev)
  case (NewSyncer peer)
  with handleNewSyncer_props [OF ok, of e peer] show ?thesis by simp
next
  case (StaleSyncer peer)
  with handleStaleSyncer_props [OF ok, of e peer] show ?thesis by (simp add: max_def)
next
  case InitialHistoricalSyncSignal
  with handleInitialHistoricalSyncSignal_props [OF ok, of e] show ?thesis by simp
next
  case RotateTick
  with rotate_props [OF ok, of e] show ?thesis by (simp add: max_def)
next
  case HistoricalSyncTick
  obtain r m' where f: "forceHistoricalSync e 0 (mgr h) = (r, m')"
    by (cases "forceHistoricalSync e 0 (mgr h)")
  then have sr: "same_registry (mgr h) m'" using forceHistoricalSync_same by blast
  with ok have "registry_ok m'" using registry_ok_same by blast
  with sr f HistoricalSyncTick show ?thesis by (simp add: same_registry_def)
next
  case Quit
  with ok show ?thesis by simp
next
  case (SyncStateChange peer st)
  with registry_ok_setSyncState [OF ok, of peer st] show ?thesis by simp
qed

lemma step_registered:
  assumes ok: "registry_ok (mgr h)"
  shows "registered (mgr (step e ev h))
           = (case ev of NewSyncer peer \<Rightarrow> insert peer (registered (mgr h))
              | StaleSyncer peer \<Rightarrow> registered (mgr h) - {peer}
              | _ \<Rightarrow> registered (mgr h))"
proof (cases ev)
  case (NewSyncer peer)
  with handleNewSyncer_props [OF ok, of e peer] show ?thesis by (simp add: registered_def)
next
  case (StaleSyncer peer)
  with handleStaleSyncer_props [OF ok, of e peer] show ?thesis by (simp add: registered_def)
next
  case InitialHistoricalSyncSignal
  with handleInitialHistoricalSyncSignal_props [OF ok, of e] show ?thesis by (simp add: registered_def)
next
  case RotateTick
  with rotate_props [OF ok, of e] show ?thesis by (simp add: registered_def)
next
  case HistoricalSyncTick
  obtain r m' where f: "forceHistoricalSync e 0 (mgr h) = (r, m')"
    by (cases "forceHistoricalSync e 0 (mgr h)")
  then have sr: "same_registry (mgr h) m'" using forceHistoricalSync_same by blast
  with f HistoricalSyncTick show ?thesis by (simp add: same_registry_def registered_def)
next
  case Quit
  then show ?thesis by simp
next
  case (SyncStateChange peer st)
  then show ?thesis by (simp add: registered_def)
qed

text \<open>Invariants of the loop.\<close>

lemma handlerLoop_invariant:
  assumes "P h" and "\<And>e ev h. P h \<Longrightarrow> P (step e ev h)"
  shows "P (handlerLoop evs h)"
  using assms(1)
proof (induction evs arbitrary: h)
  case Nil
  then show ?case by simp
next
  case (Cons x evs)
  obtain e ev where x: "x = (e, ev)" by (cases x)
  show ?case
  proof (cases "ev = Quit")
    case True
    with x Cons.prems show ?thesis by simp
  next
    case False
    then have "handlerLoop ((e, ev) # evs) h = handlerLoop evs (step e ev h)"
      by (cases ev) simp_all
    moreover from Cons.prems have "P (step e ev h)" by (rule assms(2))
    ultimately show ?thesis using Cons.IH x by simp
  qed
qed

lemma step_registry_inv: "registry_inv c h \<Longrightarrow> registry_inv c (step e ev h)"
proof -
  assume a: "registry_inv c h"
  then have ok: "registry_ok (mgr h)" by (simp add: registry_inv_def)
  from step_props [OF ok, of e ev]
  have 1: "registry_ok (mgr (step e ev h))" and 2: "cfg (mgr (step e ev h)) = cfg (mgr h)"
    and 3: "len (activeSyncers (mgr (step e ev h)))
            \<le> max (len (activeSyncers (mgr h))) (NumActiveSyncers (cfg (mgr h)))"
    by blast+
  from a have 4: "cfg (mgr h) = c" "len (activeSyncers (mgr h)) \<le> max 0 (NumActiveSyncers c)"
    by (simp_all add: registry_inv_def)
  from 3 4(2) have "len (activeSyncers (mgr (step e ev h))) \<le> max 0 (NumActiveSyncers c)"
    unfolding 4(1) by linarith
  with 1 2 4 show ?thesis by (simp add: registry_inv_def)
qed

lemma init_registry_inv: "registry_inv c (initHandler c)"
  by (simp add: registry_inv_def initHandler_def newSyncManager_def registry_ok_def len_def)

lemma syncerHandler_registry_inv: "registry_inv c (syncerHandler c evs)"
  unfolding syncerHandler_def
  using init_registry_inv step_registry_inv by (rule handlerLoop_invariant)

text \<open>Registering leaves the bootstrap variables alone.\<close>

lemma registerSyncer_locals:
  "attemptInitialHistoricalSync (snd (registerSyncer s h)) = attemptInitialHistoricalSync h
   \<and> initialHistoricalSyncCompleted (snd (registerSyncer s h)) = initialHistoricalSyncCompleted h
   \<and> initialHistoricalSyncer (snd (registerSyncer s h)) = initialHistoricalSyncer h
   \<and> initialHistoricalSyncSignal (snd (registerSyncer s h)) = initialHistoricalSyncSignal h"
  by (simp add: registerSyncer_def Let_def)

text \<open>Unfolding everything, to run the loop on concrete events.\<close>

lemmas run_defs =
  syncerHandler_def initHandler_def newSyncManager_def handleNewSyncer_def handleStaleSyncer_def
  handleInitialHistoricalSyncSignal_def
  gossipSyncer_def registerSyncer_def createGossipSyncer_def attemptHistoricalSync_def
  historicalSync_def record_call_def len_def removeGossipSyncer_def forceHistoricalSync_def
  chooseRandomSyncer_def gossipSyncers_def rangeMap_def collect_def
  rotateActiveSyncerCandidate_def transitionActiveSyncer_def transitionPassiveSyncer_def
  ProcessSyncTransition_def List.map_filter_simps Let_def promoteLoop.simps
  calmEnv_def failingEnv_def scenario4_def handler4_def
  activeSyncer1_def passiveSyncer4_def

text \<open>The state after scenario 4.\<close>

lemma handler4_active: "activeSyncers (mgr handler4) 1 = Some activeSyncer1"
  by (simp add: run_defs)

lemma handler4_inactive: "inactiveSyncers (mgr handler4) 4 = Some passiveSyncer4"
  by (simp add: run_defs)

lemma removeGossipSyncer_unknown:
  "gossipSyncer m peer = None \<Longrightarrow> removeGossipSyncer e peer m = m"
  by (simp add: removeGossipSyncer_def)

text \<open>What a rotation does.\<close>

lemma find_None_ran:
  assumes "\<forall>s \<in> ran syncers. state s \<noteq> chansSynced"
  shows "find (\<lambda>s. state s = chansSynced) (rangeMap ord syncers) = None"
proof -
  have "\<forall>s \<in> set (rangeMap ord syncers). state s \<noteq> chansSynced"
  proof
    fix s assume "s \<in> set (rangeMap ord syncers)"
    then obtain p where "syncers p = Some s" using rangeMap_mem by blast
    then have "s \<in> ran syncers" by (auto simp: ran_def)
    with assms show "state s \<noteq> chansSynced" by blast
  qed
  then show ?thesis by (simp add: find_None_iff)
qed

lemma find_Some_complete:
  assumes "range_complete ord syncers" and "\<exists>s \<in> ran syncers. state s = chansSynced"
  shows "\<exists>s. find (\<lambda>s. state s = chansSynced) (rangeMap ord syncers) = Some s"
proof -
  from assms(2) obtain s p where "syncers p = Some s" "state s = chansSynced"
    by (auto simp: ran_def)
  moreover from assms(1) have "dom syncers \<subseteq> set ord" by (simp add: range_complete_def)
  ultimately have "s \<in> set (rangeMap ord syncers)" using rangeMap_complete by blast
  with \<open>state s = chansSynced\<close>
  have "find (\<lambda>s. state s = chansSynced) (rangeMap ord syncers) \<noteq> None"
    by (auto simp: find_None_iff)
  then show ?thesis by blast
qed

lemma chosen_no_action:
  "fst (chooseRandomSyncer e i syncers None m)
     = find (\<lambda>s. state s = chansSynced) (rangeMap (rangeOrder e i) syncers)"
  by (simp add: chooseRandomSyncer_def chooseLoop_no_action)


lemma rotate_outcome:
  assumes ok: "registry_ok m"
    and fa: "find (\<lambda>s. state s = chansSynced) (rangeMap (rangeOrder e 0) (activeSyncers m)) = Some A"
    and fb: "find (\<lambda>s. state s = chansSynced) (rangeMap (rangeOrder e 1) (inactiveSyncers m)) = Some B"
  shows "activeSyncers m (peerPub A) = Some A \<and> state A = chansSynced
       \<and> inactiveSyncers m (peerPub B) = Some B \<and> state B = chansSynced
       \<and> peerPub A \<noteq> peerPub B
       \<and> (case transitionErr e 0 (peerPub A) PassiveSync of
          Some err \<Rightarrow>
            rotateActiveSyncerCandidate e m
              = m\<lparr>calls := calls m @ [CallProcessSyncTransition (peerPub A) PassiveSync (Some err)]\<rparr>
        | None \<Rightarrow>
           (case transitionErr e 0 (peerPub B) ActiveSync of
              Some err \<Rightarrow>
                calls (rotateActiveSyncerCandidate e m)
                  = calls m @ [CallProcessSyncTransition (peerPub A) PassiveSync None,
                               CallProcessSyncTransition (peerPub B) ActiveSync (Some err)]
                \<and> activeSyncers (rotateActiveSyncerCandidate e m) = (activeSyncers m)(peerPub A := None)
                \<and> inactiveSyncers (rotateActiveSyncerCandidate e m)
                    = (inactiveSyncers m)(peerPub A \<mapsto> A\<lparr>syncType := PassiveSync\<rparr>)
            | None \<Rightarrow>
                calls (rotateActiveSyncerCandidate e m)
                  = calls m @ [CallProcessSyncTransition (peerPub A) PassiveSync None,
                               CallProcessSyncTransition (peerPub B) ActiveSync None]
                \<and> activeSyncers (rotateActiveSyncerCandidate e m)
                    = (activeSyncers m)(peerPub A := None, peerPub B \<mapsto> B\<lparr>syncType := ActiveSync\<rparr>)
                \<and> inactiveSyncers (rotateActiveSyncerCandidate e m)
                    = (inactiveSyncers m)(peerPub A \<mapsto> A\<lparr>syncType := PassiveSync\<rparr>, peerPub B := None)
                \<and> len (activeSyncers (rotateActiveSyncerCandidate e m)) = len (activeSyncers m)))"
proof -
  from fa obtain pa where A: "activeSyncers m pa = Some A" and sA: "state A = chansSynced"
    using find_rangeMap by blast
  from fb obtain pb where B: "inactiveSyncers m pb = Some B" and sB: "state B = chansSynced"
    using find_rangeMap by blast
  from ok A have pa: "pa = peerPub A" by (auto simp: registry_ok_def)
  from ok B have pb: "pb = peerPub B" by (auto simp: registry_ok_def)
  note A = A [unfolded pa] and B = B [unfolded pb]
  from ok have dis: "dom (activeSyncers m) \<inter> dom (inactiveSyncers m) = {}"
    by (simp add: registry_ok_def)
  have neq: "peerPub A \<noteq> peerPub B"
  proof
    assume eq: "peerPub A = peerPub B"
    from B have "inactiveSyncers m (peerPub A) = Some B" by (simp only: eq)
    then have "peerPub A \<in> dom (inactiveSyncers m)" by (rule domI)
    moreover from A have "peerPub A \<in> dom (activeSyncers m)" by (rule domI)
    ultimately have "peerPub A \<in> dom (activeSyncers m) \<inter> dom (inactiveSyncers m)"
      by (simp only: IntI)
    then show False by (simp only: dis empty_iff)
  qed
  have outcome: "(case transitionErr e 0 (peerPub A) PassiveSync of
          Some err \<Rightarrow>
            rotateActiveSyncerCandidate e m
              = m\<lparr>calls := calls m @ [CallProcessSyncTransition (peerPub A) PassiveSync (Some err)]\<rparr>
        | None \<Rightarrow>
           (case transitionErr e 0 (peerPub B) ActiveSync of
              Some err \<Rightarrow>
                calls (rotateActiveSyncerCandidate e m)
                  = calls m @ [CallProcessSyncTransition (peerPub A) PassiveSync None,
                               CallProcessSyncTransition (peerPub B) ActiveSync (Some err)]
                \<and> activeSyncers (rotateActiveSyncerCandidate e m) = (activeSyncers m)(peerPub A := None)
                \<and> inactiveSyncers (rotateActiveSyncerCandidate e m)
                    = (inactiveSyncers m)(peerPub A \<mapsto> A\<lparr>syncType := PassiveSync\<rparr>)
            | None \<Rightarrow>
                calls (rotateActiveSyncerCandidate e m)
                  = calls m @ [CallProcessSyncTransition (peerPub A) PassiveSync None,
                               CallProcessSyncTransition (peerPub B) ActiveSync None]
                \<and> activeSyncers (rotateActiveSyncerCandidate e m)
                    = (activeSyncers m)(peerPub A := None, peerPub B \<mapsto> B\<lparr>syncType := ActiveSync\<rparr>)
                \<and> inactiveSyncers (rotateActiveSyncerCandidate e m)
                    = (inactiveSyncers m)(peerPub A \<mapsto> A\<lparr>syncType := PassiveSync\<rparr>, peerPub B := None)
                \<and> len (activeSyncers (rotateActiveSyncerCandidate e m)) = len (activeSyncers m)))"
  proof (cases "transitionErr e 0 (peerPub A) PassiveSync")
    case (Some err)
    have "rotateActiveSyncerCandidate e m
           = record_call (CallProcessSyncTransition (peerPub A) PassiveSync (Some err)) m"
      using fa fb refl Some by (rule rotate_first_fails)
    then have "rotateActiveSyncerCandidate e m
              = m\<lparr>calls := calls m @ [CallProcessSyncTransition (peerPub A) PassiveSync (Some err)]\<rparr>"
      by (simp only: record_call_def)
    with Some show ?thesis by (simp only: option.case)
  next
    case ta: None
    show ?thesis
    proof (cases "transitionErr e 0 (peerPub B) ActiveSync")
      case (Some err)
      note rot = rotate_second_fails [OF fa fb refl refl ta Some]
      have "calls (rotateActiveSyncerCandidate e m)
                  = calls m @ [CallProcessSyncTransition (peerPub A) PassiveSync None,
                               CallProcessSyncTransition (peerPub B) ActiveSync (Some err)]"
        and "activeSyncers (rotateActiveSyncerCandidate e m) = (activeSyncers m)(peerPub A := None)"
        and "inactiveSyncers (rotateActiveSyncerCandidate e m)
                    = (inactiveSyncers m)(peerPub A \<mapsto> A\<lparr>syncType := PassiveSync\<rparr>)"
        by (simp_all add: rot)
      with ta Some show ?thesis by (simp only: option.case)
    next
      case None
      note rot = rotate_both_succeed [OF fa fb refl refl ta None]
      have 1: "activeSyncers (rotateActiveSyncerCandidate e m)
                 = (activeSyncers m)(peerPub A := None, peerPub B \<mapsto> B\<lparr>syncType := ActiveSync\<rparr>)"
        and 2: "inactiveSyncers (rotateActiveSyncerCandidate e m)
                 = (inactiveSyncers m)(peerPub A \<mapsto> A\<lparr>syncType := PassiveSync\<rparr>, peerPub B := None)"
        and 3: "calls (rotateActiveSyncerCandidate e m)
                  = calls m @ [CallProcessSyncTransition (peerPub A) PassiveSync None,
                               CallProcessSyncTransition (peerPub B) ActiveSync None]"
        by (simp_all add: rot)
      have 4: "peerPub (A\<lparr>syncType := PassiveSync\<rparr>) = peerPub A" by simp
      have 5: "peerPub (B\<lparr>syncType := ActiveSync\<rparr>) = peerPub B" by simp
      note 6 = swap_props(2) [OF ok A B 4 5 1 2]
      from 1 2 3 6 ta None show ?thesis by (simp only: option.case)
    qed
  qed
  with A B sA sB neq show ?thesis by blast
qed

text \<open>The calls recorded so far are never dropped.\<close>

lemma chooseLoop_calls_mono:
  assumes "\<And>s m. set (calls m) \<subseteq> set (calls (snd (act s m)))"
  shows "set (calls m) \<subseteq> set (calls (snd (chooseLoop ss (Some act) m)))"
proof (induction ss arbitrary: m)
  case Nil
  show ?case by simp
next
  case (Cons s ss)
  show ?case
  proof (cases "state s = chansSynced")
    case False
    with Cons.IH [of m] show ?thesis by simp
  next
    case True
    obtain r m1 where a: "act s m = (r, m1)" by (cases "act s m")
    with assms [of m s] have 1: "set (calls m) \<subseteq> set (calls m1)" by simp
    show ?thesis
    proof (cases r)
      case None
      with a True 1 show ?thesis by simp
    next
      case (Some err)
      with a True have "chooseLoop (s # ss) (Some act) m = chooseLoop ss (Some act) m1" by simp
      with Cons.IH [of m1] 1 show ?thesis by auto
    qed
  qed
qed

lemma transitionPassiveSyncer_calls_mono:
  "set (calls m) \<subseteq> set (calls (snd (transitionPassiveSyncer e i s m)))"
  by (auto simp: transitionPassiveSyncer_def ProcessSyncTransition_def split: option.splits)

lemma historicalSync_calls_mono:
  "set (calls m) \<subseteq> set (calls (snd (historicalSync e s m)))"
  by (auto simp: historicalSync_def)

lemma forceHistoricalSync_calls_mono:
  "set (calls m) \<subseteq> set (calls (snd (forceHistoricalSync e i m)))"
  unfolding forceHistoricalSync_def chooseRandomSyncer_def
  by (rule chooseLoop_calls_mono) (rule historicalSync_calls_mono)

lemma promote_calls_mono:
  "set (calls m) \<subseteq> set (calls (snd (chooseRandomSyncer e i syncers (Some (transitionPassiveSyncer e j)) m)))"
  unfolding chooseRandomSyncer_def
  by (rule chooseLoop_calls_mono) (rule transitionPassiveSyncer_calls_mono)

lemma promoteLoop_calls_mono:
  "set (calls m) \<subseteq> set (calls (promoteLoop e i n m))"
proof (induction e i n m rule: promoteLoop.induct)
  case (1 e i n m)
  show ?case
  proof (cases "i < n")
    case False
    then show ?thesis by (simp add: promoteLoop.simps [of e i n m])
  next
    case True
    let ?m1 = "snd (chooseRandomSyncer e (nat i) (inactiveSyncers m)
                     (Some (transitionPassiveSyncer e (nat i))) m)"
    from True have "promoteLoop e i n m = promoteLoop e (i + 1) n ?m1"
      by (simp add: promoteLoop.simps [of e i n m])
    moreover have "set (calls m) \<subseteq> set (calls ?m1)" by (rule promote_calls_mono)
    moreover from "1.IH" [OF True] have "set (calls ?m1) \<subseteq> set (calls (promoteLoop e (i + 1) n ?m1))" .
    ultimately show ?thesis by auto
  qed
qed

lemma removeGossipSyncer_calls_mono:
  "set (calls m) \<subseteq> set (calls (removeGossipSyncer e peer m))"
proof (cases "gossipSyncer m peer")
  case None
  then show ?thesis by (simp add: removeGossipSyncer_def)
next
  case (Some s)
  let ?m2 = "(record_call (Stop (peerPub s)) m)\<lparr>activeSyncers := (activeSyncers m)(peer := None)\<rparr>"
  have "set (calls ?m2) \<subseteq> set (calls (snd (chooseRandomSyncer e 0 (inactiveSyncers ?m2)
                           (Some (transitionPassiveSyncer e 0)) ?m2)))"
    by (rule promote_calls_mono)
  then have "set (calls m) \<subseteq> set (calls (snd (chooseRandomSyncer e 0 (inactiveSyncers ?m2)
                           (Some (transitionPassiveSyncer e 0)) ?m2)))"
    by auto
  with Some show ?thesis by (auto simp: removeGossipSyncer_def Let_def)
qed

lemma rotate_calls_mono:
  "set (calls m) \<subseteq> set (calls (rotateActiveSyncerCandidate e m))"
  by (auto simp: rotate_unfold Let_def split: option.splits)

lemma attemptHistoricalSync_calls_mono:
  "set (calls (mgr h)) \<subseteq> set (calls (mgr (attemptHistoricalSync e s h)))"
  by (auto simp: attemptHistoricalSync_def historicalSync_def split: option.splits)

lemma registerSyncer_calls:
  "calls (mgr (snd (registerSyncer s h))) = calls (mgr h) @ [Start (peerPub s), CloseDone]"
  by (simp add: registerSyncer_def Let_def)

lemma handleNewSyncer_calls_mono:
  "set (calls (mgr h)) \<subseteq> set (calls (mgr (handleNewSyncer e peer h)))"
proof (cases "gossipSyncer (mgr h) peer")
  case (Some s)
  then show ?thesis by (auto simp: handleNewSyncer_def)
next
  case None
  obtain s' h1 where r: "registerSyncer (createGossipSyncer peer) h = (s', h1)"
    by (cases "registerSyncer (createGossipSyncer peer) h")
  with registerSyncer_calls [of "createGossipSyncer peer" h]
  have "set (calls (mgr h)) \<subseteq> set (calls (mgr h1))" by auto
  moreover have "set (calls (mgr h1)) \<subseteq> set (calls (mgr (attemptHistoricalSync e s' h1)))"
    by (rule attemptHistoricalSync_calls_mono)
  ultimately show ?thesis using None r by (auto simp: handleNewSyncer_def)
qed

lemma handleStaleSyncer_calls_mono:
  "set (calls (mgr h)) \<subseteq> set (calls (mgr (handleStaleSyncer e peer h)))"
proof -
  let ?m1 = "record_call CloseDone (removeGossipSyncer e peer (mgr h))"
  have 1: "set (calls (mgr h)) \<subseteq> set (calls ?m1)"
    using removeGossipSyncer_calls_mono [of "mgr h" e peer] by auto
  have 2: "set (calls ?m1) \<subseteq> set (calls (snd (forceHistoricalSync e 1 ?m1)))"
    by (rule forceHistoricalSync_calls_mono)
  have "set (calls ?m1) \<subseteq> set (calls (mgr (handleStaleSyncer e peer h)))"
    using 2 by (auto simp: handleStaleSyncer_def Let_def split: option.splits prod.splits)
  with 1 show ?thesis by blast
qed

lemma handleInitialHistoricalSyncSignal_calls_mono:
  "set (calls (mgr h)) \<subseteq> set (calls (mgr (handleInitialHistoricalSyncSignal e h)))"
  using promoteLoop_calls_mono
  by (auto simp: handleInitialHistoricalSyncSignal_def Let_def split: option.splits)

lemma step_calls_mono: "set (calls (mgr h)) \<subseteq> set (calls (mgr (step e ev h)))"
proof (cases ev)
  case (NewSyncer peer)
  then show ?thesis using handleNewSyncer_calls_mono by simp
next
  case (StaleSyncer peer)
  then show ?thesis using handleStaleSyncer_calls_mono by simp
next
  case InitialHistoricalSyncSignal
  then show ?thesis using handleInitialHistoricalSyncSignal_calls_mono by simp
next
  case RotateTick
  then show ?thesis using rotate_calls_mono by simp
next
  case HistoricalSyncTick
  then show ?thesis using forceHistoricalSync_calls_mono by simp
next
  case Quit
  then show ?thesis by simp
next
  case (SyncStateChange peer st)
  then show ?thesis by simp
qed

text \<open>Registered syncers are started, and stay registered until a stale-syncer event.\<close>

lemma gossipSyncer_registered: "gossipSyncer m p \<noteq> None \<longleftrightarrow> p \<in> registered m"
  by (auto simp: gossipSyncer_def registered_def split: option.splits)

lemma gossipSyncer_peerPub:
  assumes "registry_ok m" and "gossipSyncer m p = Some s"
  shows "peerPub s = p"
  using assms by (auto simp: gossipSyncer_def registry_ok_def split: option.splits)

lemma handleNewSyncer_started:
  assumes "gossipSyncer (mgr h) peer = None"
  shows "Start peer \<in> set (calls (mgr (handleNewSyncer e peer h)))"
proof -
  obtain s' h1 where r: "registerSyncer (createGossipSyncer peer) h = (s', h1)"
    by (cases "registerSyncer (createGossipSyncer peer) h")
  with registerSyncer_calls [of "createGossipSyncer peer" h]
  have "Start peer \<in> set (calls (mgr h1))" by (simp add: createGossipSyncer_def)
  moreover have "set (calls (mgr h1)) \<subseteq> set (calls (mgr (attemptHistoricalSync e s' h1)))"
    by (rule attemptHistoricalSync_calls_mono)
  ultimately show ?thesis using assms r by (auto simp: handleNewSyncer_def)
qed

lemma step_started:
  assumes ok: "registry_ok (mgr h)" and st: "started_inv h"
  shows "started_inv (step e ev h)"
  unfolding started_inv_def
proof
  fix p assume p: "p \<in> registered (mgr (step e ev h))"
  note reg = step_registered [OF ok, of e ev]
  note mono = step_calls_mono [of h e ev]
  show "Start p \<in> set (calls (mgr (step e ev h)))"
  proof (cases "p \<in> registered (mgr h)")
    case True
    with st have "Start p \<in> set (calls (mgr h))" by (simp add: started_inv_def)
    with mono show ?thesis by blast
  next
    case False
    with p reg have ev: "ev = NewSyncer p" by (cases ev) auto
    from False have "gossipSyncer (mgr h) p = None" using gossipSyncer_registered by blast
    then have "Start p \<in> set (calls (mgr (handleNewSyncer e p h)))"
      by (rule handleNewSyncer_started)
    with ev show ?thesis by simp
  qed
qed

lemma syncerHandler_started:
  "registry_ok (mgr (syncerHandler c evs)) \<and> started_inv (syncerHandler c evs)"
  unfolding syncerHandler_def
proof (rule handlerLoop_invariant)
  show "registry_ok (mgr (initHandler c)) \<and> started_inv (initHandler c)"
    by (simp add: initHandler_def newSyncManager_def registry_ok_def started_inv_def registered_def)
next
  fix e ev h assume "registry_ok (mgr h) \<and> started_inv h"
  then show "registry_ok (mgr (step e ev h)) \<and> started_inv (step e ev h)"
    using step_props step_started by blast
qed

lemma handlerLoop_keeps_registered:
  assumes "registry_ok (mgr h)" and "p \<in> registered (mgr h)"
    and "\<forall>e. (e, StaleSyncer p) \<notin> set evs"
  shows "registry_ok (mgr (handlerLoop evs h)) \<and> p \<in> registered (mgr (handlerLoop evs h))"
  using assms
proof (induction evs arbitrary: h)
  case Nil
  then show ?case by simp
next
  case (Cons x evs)
  obtain e ev where x: "x = (e, ev)" by (cases x)
  show ?case
  proof (cases "ev = Quit")
    case True
    with x Cons.prems show ?thesis by simp
  next
    case False
    then have unf: "handlerLoop ((e, ev) # evs) h = handlerLoop evs (step e ev h)"
      by (cases ev) simp_all
    from Cons.prems(3) x have ne: "ev \<noteq> StaleSyncer p" by auto
    from step_props [OF Cons.prems(1), of e ev] have ok': "registry_ok (mgr (step e ev h))" by blast
    from step_registered [OF Cons.prems(1), of e ev] ne Cons.prems(2)
    have reg': "p \<in> registered (mgr (step e ev h))" by (cases ev) auto
    from Cons.prems(3) have "\<forall>e. (e, StaleSyncer p) \<notin> set evs" by auto
    from Cons.IH [OF ok' reg' this] show ?thesis unfolding x unf .
  qed
qed

text \<open>Registering a peer.\<close>

lemma attemptHistoricalSync_calls_prefix:
  "\<exists>post. calls (mgr (attemptHistoricalSync e s h)) = calls (mgr h) @ post
          \<and> CloseDone \<notin> set post"
  by (auto simp: attemptHistoricalSync_def historicalSync_def split: option.splits)

lemma registerSyncer_lookup:
  assumes "gossipSyncer (mgr h) (peerPub s) = None"
    and "registerSyncer s h = (s', h1)"
  shows "gossipSyncer (mgr h1) (peerPub s) = Some s'"
  using assms
  by (auto simp: registerSyncer_def gossipSyncer_def Let_def split: option.splits if_splits)

lemma InitSyncState_success:
  assumes "InitSyncState quit1 quit2 e peer h = (Returns None, h')"
  shows "h' = step e (NewSyncer peer) h \<and> CloseDone \<in> set (newCalls (mgr h) (mgr h'))"
  using assms by (auto simp: InitSyncState_def Let_def split: if_splits)

text \<open>
  The bootstrap variables: the syncer that replaces a disconnected initial historical
  syncer is a registered one, and the loop re-arms the attempt whenever the role is
  vacant.
\<close>

lemma collect_mem:
  "collect ss acc p = Some s \<Longrightarrow> s \<in> set ss \<or> acc p = Some s"
  unfolding collect_def
proof (induction ss arbitrary: acc)
  case Nil
  then show ?case by simp
next
  case (Cons x ss)
  from Cons.prems have "fold (\<lambda>syncer acc. acc(peerPub syncer \<mapsto> syncer)) ss (acc(peerPub x \<mapsto> x)) p = Some s"
    by (simp only: fold.simps o_apply)
  from Cons.IH [OF this] show ?case by (auto split: if_splits)
qed

lemma gossipSyncers_mem:
  assumes "gossipSyncers e i m p = Some s"
  shows "(\<exists>q. activeSyncers m q = Some s) \<or> (\<exists>q. inactiveSyncers m q = Some s)"
proof -
  from assms collect_mem
  have "s \<in> set (rangeMap (rangeOrder e (i + 1)) (activeSyncers m))
        \<or> collect (rangeMap (rangeOrder e i) (inactiveSyncers m)) Map.empty p = Some s"
    unfolding gossipSyncers_def by blast
  then show ?thesis
  proof
    assume "s \<in> set (rangeMap (rangeOrder e (i + 1)) (activeSyncers m))"
    then show ?thesis using rangeMap_mem by blast
  next
    assume "collect (rangeMap (rangeOrder e i) (inactiveSyncers m)) Map.empty p = Some s"
    then have "s \<in> set (rangeMap (rangeOrder e i) (inactiveSyncers m))"
      using collect_mem [of "rangeMap (rangeOrder e i) (inactiveSyncers m)" Map.empty p s] by simp
    then show ?thesis using rangeMap_mem by blast
  qed
qed

lemma forceHistoricalSync_registered:
  assumes f: "forceHistoricalSync e i m = (Some s, m')" and ok: "registry_ok m"
  shows "peerPub s \<in> registered m"
proof -
  from f have "chooseLoop (rangeMap (rangeOrder e (i + 2)) (gossipSyncers e i m))
                 (Some (historicalSync e)) m = (Some s, m')"
    by (simp add: forceHistoricalSync_def chooseRandomSyncer_def)
  from chooseLoop_historical [OF this]
  have "s \<in> set (rangeMap (rangeOrder e (i + 2)) (gossipSyncers e i m))" by blast
  then obtain p where "gossipSyncers e i m p = Some s" using rangeMap_mem by blast
  from gossipSyncers_mem [OF this] show ?thesis
  proof
    assume "\<exists>q. activeSyncers m q = Some s"
    then obtain q where q: "activeSyncers m q = Some s" ..
    with ok have "peerPub s = q" unfolding registry_ok_def by blast
    with q have "activeSyncers m (peerPub s) = Some s" by simp
    then have "peerPub s \<in> dom (activeSyncers m)" by (rule domI)
    then show ?thesis by (simp add: registered_def)
  next
    assume "\<exists>q. inactiveSyncers m q = Some s"
    then obtain q where q: "inactiveSyncers m q = Some s" ..
    with ok have "peerPub s = q" unfolding registry_ok_def by blast
    with q have "inactiveSyncers m (peerPub s) = Some s" by simp
    then have "peerPub s \<in> dom (inactiveSyncers m)" by (rule domI)
    then show ?thesis by (simp add: registered_def)
  qed
qed


lemma registerSyncer_peerPub: "peerPub (fst (registerSyncer s h)) = peerPub s"
  by (simp add: registerSyncer_def Let_def)

lemma handleNewSyncer_locals:
  "initialHistoricalSyncCompleted (handleNewSyncer e peer h) = initialHistoricalSyncCompleted h
   \<and> ((attemptInitialHistoricalSync (handleNewSyncer e peer h) = attemptInitialHistoricalSync h
        \<and> initialHistoricalSyncer (handleNewSyncer e peer h) = initialHistoricalSyncer h)
      \<or> (\<exists>s. initialHistoricalSyncer (handleNewSyncer e peer h) = Some s \<and> peerPub s = peer))"
proof (cases "gossipSyncer (mgr h) peer")
  case (Some s0)
  then show ?thesis by (simp add: handleNewSyncer_def)
next
  case None
  obtain s h1 where r: "registerSyncer (createGossipSyncer peer) h = (s, h1)"
    by (cases "registerSyncer (createGossipSyncer peer) h")
  from registerSyncer_peerPub [of "createGossipSyncer peer" h] r
  have p: "peerPub s = peer" by (simp add: createGossipSyncer_def)
  from registerSyncer_locals [of "createGossipSyncer peer" h] r
  have l: "attemptInitialHistoricalSync h1 = attemptInitialHistoricalSync h"
    "initialHistoricalSyncCompleted h1 = initialHistoricalSyncCompleted h"
    "initialHistoricalSyncer h1 = initialHistoricalSyncer h"
    by simp_all
  from None r have hn: "handleNewSyncer e peer h = attemptHistoricalSync e s h1"
    by (simp add: handleNewSyncer_def)
  show ?thesis unfolding hn using l p
    by (auto simp: attemptHistoricalSync_def historicalSync_def split: option.splits)
qed

lemma handleNewSyncer_rearm:
  assumes ok: "registry_ok (mgr h)" and inv: "rearm_inv h"
  shows "rearm_inv (handleNewSyncer e peer h)"
proof -
  let ?h' = "handleNewSyncer e peer h"
  from handleNewSyncer_props [OF ok, of e peer]
  have reg: "registered (mgr ?h') = insert peer (registered (mgr h))"
    by (simp add: registered_def)
  note loc = handleNewSyncer_locals [of e peer h]
  show ?thesis unfolding rearm_inv_def
  proof
    assume a: "\<not> initialHistoricalSyncCompleted ?h'
      \<and> (\<forall>s. initialHistoricalSyncer ?h' = Some s \<longrightarrow> peerPub s \<notin> registered (mgr ?h'))"
    from a reg have no: "\<not> (\<exists>s. initialHistoricalSyncer ?h' = Some s \<and> peerPub s = peer)"
      by auto
    with loc have same: "attemptInitialHistoricalSync ?h' = attemptInitialHistoricalSync h"
      "initialHistoricalSyncer ?h' = initialHistoricalSyncer h"
      "initialHistoricalSyncCompleted ?h' = initialHistoricalSyncCompleted h"
      by blast+
    from a have "\<not> initialHistoricalSyncCompleted h
      \<and> (\<forall>s. initialHistoricalSyncer h = Some s \<longrightarrow> peerPub s \<notin> registered (mgr h))"
      unfolding same reg by simp
    with inv have "attemptInitialHistoricalSync h" by (simp add: rearm_inv_def)
    then show "attemptInitialHistoricalSync ?h'" by (simp only: same)
  qed
qed

lemma handleStaleSyncer_locals:
  assumes ok: "registry_ok (mgr h)"
  shows "initialHistoricalSyncCompleted (handleStaleSyncer e peer h) = initialHistoricalSyncCompleted h
   \<and> ((attemptInitialHistoricalSync (handleStaleSyncer e peer h) = attemptInitialHistoricalSync h
        \<and> initialHistoricalSyncer (handleStaleSyncer e peer h) = initialHistoricalSyncer h
        \<and> (\<forall>s. initialHistoricalSyncer h = Some s \<longrightarrow> peerPub s \<noteq> peer))
      \<or> attemptInitialHistoricalSync (handleStaleSyncer e peer h)
      \<or> (\<exists>s. initialHistoricalSyncer (handleStaleSyncer e peer h) = Some s
             \<and> peerPub s \<in> registered (mgr (handleStaleSyncer e peer h))))"
proof -
  let ?m1 = "record_call CloseDone (removeGossipSyncer e peer (mgr h))"
  let ?h' = "handleStaleSyncer e peer h"
  from removeGossipSyncer_props [OF ok, of e peer] have ok1: "registry_ok ?m1" by simp
  show ?thesis
  proof (cases "initialHistoricalSyncer h")
    case None
    then show ?thesis by (simp add: handleStaleSyncer_def)
  next
    case (Some ihs)
    show ?thesis
    proof (cases "peer \<noteq> peerPub ihs")
      case True
      with Some show ?thesis by (auto simp: handleStaleSyncer_def)
    next
      case False
      then have eq: "peerPub ihs = peer" by simp
      obtain r m2 where f: "forceHistoricalSync e 1 ?m1 = (r, m2)"
        by (cases "forceHistoricalSync e 1 ?m1")
      show ?thesis
      proof (cases r)
        case None
        with Some eq f show ?thesis by (simp add: handleStaleSyncer_def Let_def)
      next
        case (Some s)
        with f have fs: "forceHistoricalSync e 1 ?m1 = (Some s, m2)" by simp
        from forceHistoricalSync_registered [OF fs ok1] have "peerPub s \<in> registered ?m1" .
        moreover from forceHistoricalSync_same [OF fs] have "same_registry ?m1 m2" by blast
        ultimately have "peerPub s \<in> registered m2"
          by (simp add: registered_def same_registry_def)
        moreover from \<open>initialHistoricalSyncer h = Some ihs\<close> eq fs
        have "mgr ?h' = record_call (CallResetSyncedSignal (peerPub s)) m2"
          "initialHistoricalSyncer ?h' = Some s"
          "initialHistoricalSyncCompleted ?h' = initialHistoricalSyncCompleted h"
          by (simp_all add: handleStaleSyncer_def Let_def)
        ultimately show ?thesis by (simp add: registered_def)
      qed
    qed
  qed
qed

lemma handleStaleSyncer_rearm:
  assumes ok: "registry_ok (mgr h)" and inv: "rearm_inv h"
  shows "rearm_inv (handleStaleSyncer e peer h)"
proof -
  let ?h' = "handleStaleSyncer e peer h"
  from handleStaleSyncer_props [OF ok, of e peer]
  have reg: "registered (mgr ?h') = registered (mgr h) - {peer}"
    by (simp add: registered_def)
  note loc = handleStaleSyncer_locals [OF ok, of e peer]
  show ?thesis unfolding rearm_inv_def
  proof
    assume a: "\<not> initialHistoricalSyncCompleted ?h'
      \<and> (\<forall>s. initialHistoricalSyncer ?h' = Some s \<longrightarrow> peerPub s \<notin> registered (mgr ?h'))"
    show "attemptInitialHistoricalSync ?h'"
    proof (rule ccontr)
      assume n: "\<not> attemptInitialHistoricalSync ?h'"
      from a have "\<not> (\<exists>s. initialHistoricalSyncer ?h' = Some s
             \<and> peerPub s \<in> registered (mgr ?h'))" by blast
      with loc n have same: "attemptInitialHistoricalSync ?h' = attemptInitialHistoricalSync h"
        "initialHistoricalSyncer ?h' = initialHistoricalSyncer h"
        "initialHistoricalSyncCompleted ?h' = initialHistoricalSyncCompleted h"
        and ne: "\<forall>s. initialHistoricalSyncer h = Some s \<longrightarrow> peerPub s \<noteq> peer"
        by blast+
      from a ne have "\<not> initialHistoricalSyncCompleted h
        \<and> (\<forall>s. initialHistoricalSyncer h = Some s \<longrightarrow> peerPub s \<notin> registered (mgr h))"
        unfolding same reg by auto
      with inv have "attemptInitialHistoricalSync h" by (simp add: rearm_inv_def)
      with n same(1) show False by blast
    qed
  qed
qed

lemma handleInitialHistoricalSyncSignal_rearm:
  assumes "rearm_inv h"
  shows "rearm_inv (handleInitialHistoricalSyncSignal e h)"
proof (cases "initialHistoricalSyncSignal h")
  case None
  with assms show ?thesis by (simp add: handleInitialHistoricalSyncSignal_def)
next
  case (Some sig)
  then have "initialHistoricalSyncCompleted (handleInitialHistoricalSyncSignal e h)"
    by (simp add: handleInitialHistoricalSyncSignal_def Let_def)
  then show ?thesis by (simp add: rearm_inv_def)
qed

lemma step_rearm:
  assumes ok: "registry_ok (mgr h)" and inv: "rearm_inv h"
  shows "rearm_inv (step e ev h)"
proof (cases ev)
  case (NewSyncer peer)
  with handleNewSyncer_rearm [OF ok inv] show ?thesis by simp
next
  case (StaleSyncer peer)
  with handleStaleSyncer_rearm [OF ok inv] show ?thesis by simp
next
  case InitialHistoricalSyncSignal
  with handleInitialHistoricalSyncSignal_rearm [OF inv] show ?thesis by simp
next
  case RotateTick
  with step_registered [OF ok, of e ev] have "registered (mgr (step e ev h)) = registered (mgr h)"
    by simp
  with inv RotateTick show ?thesis by (simp add: rearm_inv_def)
next
  case HistoricalSyncTick
  with step_registered [OF ok, of e ev] have "registered (mgr (step e ev h)) = registered (mgr h)"
    by simp
  with inv HistoricalSyncTick show ?thesis by (simp add: rearm_inv_def)
next
  case Quit
  with inv show ?thesis by simp
next
  case (SyncStateChange peer st)
  with step_registered [OF ok, of e ev] have "registered (mgr (step e ev h)) = registered (mgr h)"
    by simp
  with inv SyncStateChange show ?thesis by (simp add: rearm_inv_def)
qed

lemma syncerHandler_rearm:
  "registry_ok (mgr (syncerHandler c evs)) \<and> rearm_inv (syncerHandler c evs)"
  unfolding syncerHandler_def
proof (rule handlerLoop_invariant)
  show "registry_ok (mgr (initHandler c)) \<and> rearm_inv (initHandler c)"
    by (simp add: initHandler_def newSyncManager_def registry_ok_def rearm_inv_def)
next
  fix e ev h assume "registry_ok (mgr h) \<and> rearm_inv h"
  then show "registry_ok (mgr (step e ev h)) \<and> rearm_inv (step e ev h)"
    using step_props step_rearm by blast
qed

lemma attempt_when_role_vacant:
  assumes "\<not> initialHistoricalSyncCompleted (syncerHandler c evs)"
    and "\<forall>s. initialHistoricalSyncer (syncerHandler c evs) = Some s
           \<longrightarrow> peerPub s \<notin> registered (mgr (syncerHandler c evs))"
  shows "attemptInitialHistoricalSync (syncerHandler c evs)"
  using syncerHandler_rearm [of c evs] assms by (simp add: rearm_inv_def)

section \<open>The claims\<close>

text \<open>
  Claim C1: in every state the loop reaches, \<open>attemptInitialHistoricalSync\<close> is true if
  and only if \<open>initialHistoricalSyncer\<close> is unset and the initial historical sync has not
  completed. The code breaks it. With \<open>K = 3\<close>, register peer 1 (its historical sync
  starts) and deregister it: no replacement is found, the loop sets
  \<open>attemptInitialHistoricalSync\<close> and leaves \<open>initialHistoricalSyncer\<close> and its signal
  pointing at the removed syncer, although peer 1 has no syncer any more. When the signal
  of the removed syncer then fires, the sync counts as completed while the loop still
  attempts an initial historical sync. The declaration of \<open>initialHistoricalSyncer\<close> calls
  it the syncer the initial historical sync is currently performed with, and the case of
  the signal clears both variables; the branch without a replacement misses that. What the
  code does keep is lemma \<open>attempt_when_role_vacant\<close>.
\<close>

theorem attempt_iff_fails_after_deregister:
  "attemptInitialHistoricalSync
     (syncerHandler \<lparr>NumActiveSyncers = 3\<rparr> [(calmEnv, NewSyncer 1), (calmEnv, StaleSyncer 1)])
   \<and> initialHistoricalSyncer
       (syncerHandler \<lparr>NumActiveSyncers = 3\<rparr> [(calmEnv, NewSyncer 1), (calmEnv, StaleSyncer 1)])
       = Some \<lparr>peerPub = 1, syncType = PassiveSync, state = chansSynced\<rparr>
   \<and> gossipSyncer
       (mgr (syncerHandler \<lparr>NumActiveSyncers = 3\<rparr> [(calmEnv, NewSyncer 1), (calmEnv, StaleSyncer 1)]))
       1 = None
   \<and> \<not> (attemptInitialHistoricalSync
         (syncerHandler \<lparr>NumActiveSyncers = 3\<rparr> [(calmEnv, NewSyncer 1), (calmEnv, StaleSyncer 1)])
       \<longleftrightarrow>
       (initialHistoricalSyncer
          (syncerHandler \<lparr>NumActiveSyncers = 3\<rparr> [(calmEnv, NewSyncer 1), (calmEnv, StaleSyncer 1)]) = None
        \<and> \<not> initialHistoricalSyncCompleted
          (syncerHandler \<lparr>NumActiveSyncers = 3\<rparr> [(calmEnv, NewSyncer 1), (calmEnv, StaleSyncer 1)])))
   \<and> \<not> (attemptInitialHistoricalSync
         (syncerHandler \<lparr>NumActiveSyncers = 3\<rparr>
            [(calmEnv, NewSyncer 1), (calmEnv, StaleSyncer 1), (calmEnv, InitialHistoricalSyncSignal)])
       \<longleftrightarrow>
       (initialHistoricalSyncer
          (syncerHandler \<lparr>NumActiveSyncers = 3\<rparr>
            [(calmEnv, NewSyncer 1), (calmEnv, StaleSyncer 1), (calmEnv, InitialHistoricalSyncSignal)]) = None
        \<and> \<not> initialHistoricalSyncCompleted
          (syncerHandler \<lparr>NumActiveSyncers = 3\<rparr>
            [(calmEnv, NewSyncer 1), (calmEnv, StaleSyncer 1), (calmEnv, InitialHistoricalSyncSignal)])))"
  by (simp add: run_defs)

text \<open>
  Claim C2. For every \<open>K = NumActiveSyncers\<close> (a natural number in the spec's data model,
  an \<^verbatim>\<open>int\<close> in the code, hence the hypothesis \<open>0 \<le> K\<close>) and every finite sequence of
  events processed by the loop, whatever the syncers answer and in whatever order the
  maps are ranged over, the active map never has more than \<open>K\<close> entries.
\<close>

theorem activeSyncers_bounded:
  assumes "0 \<le> NumActiveSyncers c"
  shows "len (activeSyncers (mgr (syncerHandler c evs))) \<le> NumActiveSyncers c"
proof -
  have "registry_inv c (syncerHandler c evs)" by (rule syncerHandler_registry_inv)
  then have "len (activeSyncers (mgr (syncerHandler c evs))) \<le> max 0 (NumActiveSyncers c)"
    by (simp add: registry_inv_def)
  with assms show ?thesis by simp
qed

theorem activeSyncers_bounded_witness:
  "(0::int) \<le> NumActiveSyncers \<lparr>NumActiveSyncers = 3\<rparr>
   \<and> dom (activeSyncers (mgr (syncerHandler \<lparr>NumActiveSyncers = 3\<rparr> scenario4))) = {1, 2, 3}
   \<and> len (activeSyncers (mgr (syncerHandler \<lparr>NumActiveSyncers = 3\<rparr> scenario4))) \<le> 3"
proof -
  have h: "(0::int) \<le> NumActiveSyncers \<lparr>NumActiveSyncers = 3\<rparr>" by simp
  have "dom (activeSyncers (mgr (syncerHandler \<lparr>NumActiveSyncers = 3\<rparr> scenario4))) = {1, 2, 3}"
    by (simp add: run_defs) auto
  with h activeSyncers_bounded [OF h, of scenario4] show ?thesis by simp
qed

text \<open>
  Claim C3. After every iteration of the event loop the active and the inactive map have
  no key in common: each peer is in at most one of them. The maps are only written by the
  loop, once per iteration and under the mutex, so these are also the maps every public
  lookup sees.
\<close>

theorem activeSyncers_inactiveSyncers_disjoint:
  "dom (activeSyncers (mgr (syncerHandler c evs)))
     \<inter> dom (inactiveSyncers (mgr (syncerHandler c evs))) = {}"
proof -
  have "registry_inv c (syncerHandler c evs)" by (rule syncerHandler_registry_inv)
  then show ?thesis by (simp add: registry_inv_def registry_ok_def)
qed

theorem activeSyncers_inactiveSyncers_disjoint_witness:
  "dom (inactiveSyncers (mgr (syncerHandler \<lparr>NumActiveSyncers = 3\<rparr> scenario4))) = {4, 5}
   \<and> dom (activeSyncers (mgr (syncerHandler \<lparr>NumActiveSyncers = 3\<rparr> scenario4)))
       \<inter> dom (inactiveSyncers (mgr (syncerHandler \<lparr>NumActiveSyncers = 3\<rparr> scenario4))) = {}"
proof -
  have "dom (inactiveSyncers (mgr (syncerHandler \<lparr>NumActiveSyncers = 3\<rparr> scenario4))) = {4, 5}"
    by (simp add: run_defs) auto
  with activeSyncers_inactiveSyncers_disjoint [of "\<lparr>NumActiveSyncers = 3\<rparr>" scenario4]
  show ?thesis by simp
qed

text \<open>
  Claim C4. A register-peer event for a peer without a syncer creates the syncer in state
  \<open>chansSynced\<close> and: before the initial historical sync has completed, classifies it
  passive and inserts it into the inactive map, whatever the number of active syncers;
  after it has completed and with fewer than \<open>K\<close> active syncers, classifies it active and
  inserts it into the active map; with \<open>K\<close> or more active syncers, classifies it passive
  and inserts it into the inactive map. The other map is as before.
\<close>

theorem new_syncer_classification:
  assumes "gossipSyncer (mgr h) peer = None"
  shows "(\<not> initialHistoricalSyncCompleted h \<longrightarrow>
            inactiveSyncers (mgr (step e (NewSyncer peer) h))
              = (inactiveSyncers (mgr h))(peer \<mapsto> \<lparr>peerPub = peer, syncType = PassiveSync, state = chansSynced\<rparr>)
            \<and> activeSyncers (mgr (step e (NewSyncer peer) h)) = activeSyncers (mgr h))
       \<and> (initialHistoricalSyncCompleted h \<and> len (activeSyncers (mgr h)) < NumActiveSyncers (cfg (mgr h)) \<longrightarrow>
            activeSyncers (mgr (step e (NewSyncer peer) h))
              = (activeSyncers (mgr h))(peer \<mapsto> \<lparr>peerPub = peer, syncType = ActiveSync, state = chansSynced\<rparr>)
            \<and> inactiveSyncers (mgr (step e (NewSyncer peer) h)) = inactiveSyncers (mgr h))
       \<and> (len (activeSyncers (mgr h)) \<ge> NumActiveSyncers (cfg (mgr h)) \<longrightarrow>
            inactiveSyncers (mgr (step e (NewSyncer peer) h))
              = (inactiveSyncers (mgr h))(peer \<mapsto> \<lparr>peerPub = peer, syncType = PassiveSync, state = chansSynced\<rparr>)
            \<and> activeSyncers (mgr (step e (NewSyncer peer) h)) = activeSyncers (mgr h))"
proof -
  obtain s' h1 where r: "registerSyncer (createGossipSyncer peer) h = (s', h1)"
    by (cases "registerSyncer (createGossipSyncer peer) h")
  with assms have st: "step e (NewSyncer peer) h = attemptHistoricalSync e s' h1"
    by (simp add: handleNewSyncer_def)
  have sr: "same_registry (mgr h1) (mgr (attemptHistoricalSync e s' h1))"
    by (rule attemptHistoricalSync_same)
  have a: "activeSyncers (mgr (step e (NewSyncer peer) h)) = activeSyncers (mgr h1)"
    and i: "inactiveSyncers (mgr (step e (NewSyncer peer) h)) = inactiveSyncers (mgr h1)"
    using sr unfolding st same_registry_def by simp_all
  from r show ?thesis unfolding a i
    by (auto simp: registerSyncer_def createGossipSyncer_def Let_def split: if_splits)
qed

theorem new_syncer_classification_witness:
  "gossipSyncer (mgr (initHandler \<lparr>NumActiveSyncers = 3\<rparr>)) 1 = None
   \<and> \<not> initialHistoricalSyncCompleted (initHandler \<lparr>NumActiveSyncers = 3\<rparr>)
   \<and> inactiveSyncers (mgr (step calmEnv (NewSyncer 1) (initHandler \<lparr>NumActiveSyncers = 3\<rparr>))) 1
       = Some \<lparr>peerPub = 1, syncType = PassiveSync, state = chansSynced\<rparr>
   \<and> gossipSyncer (mgr (syncerHandler \<lparr>NumActiveSyncers = 3\<rparr>
         [(calmEnv, NewSyncer 1), (calmEnv, InitialHistoricalSyncSignal)])) 2 = None
   \<and> initialHistoricalSyncCompleted (syncerHandler \<lparr>NumActiveSyncers = 3\<rparr>
         [(calmEnv, NewSyncer 1), (calmEnv, InitialHistoricalSyncSignal)])
   \<and> len (activeSyncers (mgr (syncerHandler \<lparr>NumActiveSyncers = 3\<rparr>
         [(calmEnv, NewSyncer 1), (calmEnv, InitialHistoricalSyncSignal)]))) < 3
   \<and> activeSyncers (mgr (step calmEnv (NewSyncer 2) (syncerHandler \<lparr>NumActiveSyncers = 3\<rparr>
         [(calmEnv, NewSyncer 1), (calmEnv, InitialHistoricalSyncSignal)]))) 2
       = Some \<lparr>peerPub = 2, syncType = ActiveSync, state = chansSynced\<rparr>
   \<and> len (activeSyncers (mgr (syncerHandler \<lparr>NumActiveSyncers = 1\<rparr>
         [(calmEnv, NewSyncer 1), (calmEnv, InitialHistoricalSyncSignal)]))) \<ge> 1
   \<and> inactiveSyncers (mgr (step calmEnv (NewSyncer 2) (syncerHandler \<lparr>NumActiveSyncers = 1\<rparr>
         [(calmEnv, NewSyncer 1), (calmEnv, InitialHistoricalSyncSignal)]))) 2
       = Some \<lparr>peerPub = 2, syncType = PassiveSync, state = chansSynced\<rparr>"
proof -
  let ?h0 = "initHandler \<lparr>NumActiveSyncers = 3\<rparr>"
  let ?h3 = "syncerHandler \<lparr>NumActiveSyncers = 3\<rparr>
         [(calmEnv, NewSyncer 1), (calmEnv, InitialHistoricalSyncSignal)]"
  let ?h1 = "syncerHandler \<lparr>NumActiveSyncers = 1\<rparr>
         [(calmEnv, NewSyncer 1), (calmEnv, InitialHistoricalSyncSignal)]"
  have a0: "gossipSyncer (mgr ?h0) 1 = None" by (simp add: run_defs)
  have b0: "\<not> initialHistoricalSyncCompleted ?h0" by (simp add: run_defs)
  have a3: "gossipSyncer (mgr ?h3) 2 = None" by (simp add: run_defs)
  have b3: "initialHistoricalSyncCompleted ?h3" by (simp add: run_defs)
  have c3: "len (activeSyncers (mgr ?h3)) < 3" by (simp add: run_defs)
  have k3: "NumActiveSyncers (cfg (mgr ?h3)) = 3" by (simp add: run_defs)
  have a1: "gossipSyncer (mgr ?h1) 2 = None" by (simp add: run_defs)
  have c1: "len (activeSyncers (mgr ?h1)) \<ge> 1" by (simp add: run_defs)
  have k1: "NumActiveSyncers (cfg (mgr ?h1)) = 1" by (simp add: run_defs)
  from new_syncer_classification [OF a0, of calmEnv] b0
  have r0: "inactiveSyncers (mgr (step calmEnv (NewSyncer 1) ?h0)) 1
       = Some \<lparr>peerPub = 1, syncType = PassiveSync, state = chansSynced\<rparr>"
    by simp
  from new_syncer_classification [OF a3, of calmEnv] b3 c3 k3
  have r3: "activeSyncers (mgr (step calmEnv (NewSyncer 2) ?h3)) 2
       = Some \<lparr>peerPub = 2, syncType = ActiveSync, state = chansSynced\<rparr>"
    by simp
  from new_syncer_classification [OF a1, of calmEnv] c1 k1
  have r1: "inactiveSyncers (mgr (step calmEnv (NewSyncer 2) ?h1)) 2
       = Some \<lparr>peerPub = 2, syncType = PassiveSync, state = chansSynced\<rparr>"
    by simp
  from a0 b0 r0 a3 b3 c3 r3 c1 r1 show ?thesis by blast
qed

text \<open>
  Claim C5. In a state \<open>m\<close> that the loop reaches, \<^verbatim>\<open>rotateActiveSyncerCandidate\<close>:
  \<^item> changes nothing and makes no call when no active syncer or no inactive syncer is
    \<open>chansSynced\<close>;
  \<^item> otherwise (the two \<^verbatim>\<open>range\<close>s visiting all keys) chooses an active syncer \<open>A\<close> and
    an inactive syncer \<open>B\<close>, both \<open>chansSynced\<close>, of different peers, and first asks \<open>A\<close>
    for the transition to passive. When that fails it makes no other call and changes
    no map. When it succeeds, \<open>A\<close> is moved to the inactive map and only then is \<open>B\<close>
    asked for the transition to active; when both succeed, \<open>A\<close> has moved from the active
    to the inactive map, \<open>B\<close> from the inactive to the active map, nothing else has
    changed and the active map has as many entries as before.
\<close>

theorem rotateActiveSyncerCandidate_rotates:
  assumes m: "m = mgr (syncerHandler c evs)"
  shows "((\<forall>s \<in> ran (activeSyncers m). state s \<noteq> chansSynced)
           \<or> (\<forall>s \<in> ran (inactiveSyncers m). state s \<noteq> chansSynced)
          \<longrightarrow> rotateActiveSyncerCandidate e m = m)
       \<and> ((\<exists>s \<in> ran (activeSyncers m). state s = chansSynced)
           \<and> (\<exists>s \<in> ran (inactiveSyncers m). state s = chansSynced)
           \<and> range_complete (rangeOrder e 0) (activeSyncers m)
           \<and> range_complete (rangeOrder e 1) (inactiveSyncers m)
          \<longrightarrow> (\<exists>A B.
                fst (chooseRandomSyncer e 0 (activeSyncers m) None m) = Some A
              \<and> fst (chooseRandomSyncer e 1 (inactiveSyncers m) None m) = Some B
              \<and> activeSyncers m (peerPub A) = Some A \<and> state A = chansSynced
              \<and> inactiveSyncers m (peerPub B) = Some B \<and> state B = chansSynced
              \<and> peerPub A \<noteq> peerPub B
              \<and> (case transitionErr e 0 (peerPub A) PassiveSync of
                    Some err \<Rightarrow>
                      rotateActiveSyncerCandidate e m
                        = m\<lparr>calls := calls m @ [CallProcessSyncTransition (peerPub A) PassiveSync (Some err)]\<rparr>
                  | None \<Rightarrow>
                     (case transitionErr e 0 (peerPub B) ActiveSync of
                        Some err \<Rightarrow>
                          calls (rotateActiveSyncerCandidate e m)
                            = calls m @ [CallProcessSyncTransition (peerPub A) PassiveSync None,
                                         CallProcessSyncTransition (peerPub B) ActiveSync (Some err)]
                          \<and> activeSyncers (rotateActiveSyncerCandidate e m)
                              = (activeSyncers m)(peerPub A := None)
                          \<and> inactiveSyncers (rotateActiveSyncerCandidate e m)
                              = (inactiveSyncers m)(peerPub A \<mapsto> A\<lparr>syncType := PassiveSync\<rparr>)
                      | None \<Rightarrow>
                          calls (rotateActiveSyncerCandidate e m)
                            = calls m @ [CallProcessSyncTransition (peerPub A) PassiveSync None,
                                         CallProcessSyncTransition (peerPub B) ActiveSync None]
                          \<and> activeSyncers (rotateActiveSyncerCandidate e m)
                              = (activeSyncers m)(peerPub A := None,
                                                  peerPub B \<mapsto> B\<lparr>syncType := ActiveSync\<rparr>)
                          \<and> inactiveSyncers (rotateActiveSyncerCandidate e m)
                              = (inactiveSyncers m)(peerPub A \<mapsto> A\<lparr>syncType := PassiveSync\<rparr>,
                                                    peerPub B := None)
                          \<and> len (activeSyncers (rotateActiveSyncerCandidate e m))
                              = len (activeSyncers m)))))"
proof -
  have part1: "(\<forall>s \<in> ran (activeSyncers m). state s \<noteq> chansSynced)
           \<or> (\<forall>s \<in> ran (inactiveSyncers m). state s \<noteq> chansSynced)
          \<longrightarrow> rotateActiveSyncerCandidate e m = m"
  proof
    assume h: "(\<forall>s \<in> ran (activeSyncers m). state s \<noteq> chansSynced)
           \<or> (\<forall>s \<in> ran (inactiveSyncers m). state s \<noteq> chansSynced)"
    have "find (\<lambda>s. state s = chansSynced) (rangeMap (rangeOrder e 0) (activeSyncers m)) = None
         \<or> find (\<lambda>s. state s = chansSynced) (rangeMap (rangeOrder e 1) (inactiveSyncers m)) = None"
    proof (rule disjE [OF h])
      assume "\<forall>s \<in> ran (activeSyncers m). state s \<noteq> chansSynced"
      then have "find (\<lambda>s. state s = chansSynced) (rangeMap (rangeOrder e 0) (activeSyncers m)) = None"
        by (rule find_None_ran)
      then show ?thesis by (rule disjI1)
    next
      assume "\<forall>s \<in> ran (inactiveSyncers m). state s \<noteq> chansSynced"
      then have "find (\<lambda>s. state s = chansSynced) (rangeMap (rangeOrder e 1) (inactiveSyncers m)) = None"
        by (rule find_None_ran)
      then show ?thesis by (rule disjI2)
    qed
    then show "rotateActiveSyncerCandidate e m = m" by (rule rotate_none)
  qed
  have "registry_inv c (syncerHandler c evs)" by (rule syncerHandler_registry_inv)
  then have ok: "registry_ok m" by (simp add: registry_inv_def m)
  {
    assume a: "(\<exists>s \<in> ran (activeSyncers m). state s = chansSynced)
           \<and> (\<exists>s \<in> ran (inactiveSyncers m). state s = chansSynced)
           \<and> range_complete (rangeOrder e 0) (activeSyncers m)
           \<and> range_complete (rangeOrder e 1) (inactiveSyncers m)"
    from a have a1: "\<exists>s \<in> ran (activeSyncers m). state s = chansSynced"
      and a2: "\<exists>s \<in> ran (inactiveSyncers m). state s = chansSynced"
      and a3: "range_complete (rangeOrder e 0) (activeSyncers m)"
      and a4: "range_complete (rangeOrder e 1) (inactiveSyncers m)"
      by (simp_all only:)
    from find_Some_complete [OF a3 a1] obtain A where fa:
      "find (\<lambda>s. state s = chansSynced) (rangeMap (rangeOrder e 0) (activeSyncers m)) = Some A"
      by (rule exE)
    from find_Some_complete [OF a4 a2] obtain B where fb:
      "find (\<lambda>s. state s = chansSynced) (rangeMap (rangeOrder e 1) (inactiveSyncers m)) = Some B"
      by (rule exE)
    from fa have ca: "fst (chooseRandomSyncer e 0 (activeSyncers m) None m) = Some A"
      by (simp only: chosen_no_action)
    from fb have cb: "fst (chooseRandomSyncer e 1 (inactiveSyncers m) None m) = Some B"
      by (simp only: chosen_no_action)
    note ro = rotate_outcome [OF ok fa fb]
    have "\<exists>A B.
                fst (chooseRandomSyncer e 0 (activeSyncers m) None m) = Some A
              \<and> fst (chooseRandomSyncer e 1 (inactiveSyncers m) None m) = Some B
              \<and> activeSyncers m (peerPub A) = Some A \<and> state A = chansSynced
              \<and> inactiveSyncers m (peerPub B) = Some B \<and> state B = chansSynced
              \<and> peerPub A \<noteq> peerPub B
              \<and> (case transitionErr e 0 (peerPub A) PassiveSync of
                    Some err \<Rightarrow>
                      rotateActiveSyncerCandidate e m
                        = m\<lparr>calls := calls m @ [CallProcessSyncTransition (peerPub A) PassiveSync (Some err)]\<rparr>
                  | None \<Rightarrow>
                     (case transitionErr e 0 (peerPub B) ActiveSync of
                        Some err \<Rightarrow>
                          calls (rotateActiveSyncerCandidate e m)
                            = calls m @ [CallProcessSyncTransition (peerPub A) PassiveSync None,
                                         CallProcessSyncTransition (peerPub B) ActiveSync (Some err)]
                          \<and> activeSyncers (rotateActiveSyncerCandidate e m)
                              = (activeSyncers m)(peerPub A := None)
                          \<and> inactiveSyncers (rotateActiveSyncerCandidate e m)
                              = (inactiveSyncers m)(peerPub A \<mapsto> A\<lparr>syncType := PassiveSync\<rparr>)
                      | None \<Rightarrow>
                          calls (rotateActiveSyncerCandidate e m)
                            = calls m @ [CallProcessSyncTransition (peerPub A) PassiveSync None,
                                         CallProcessSyncTransition (peerPub B) ActiveSync None]
                          \<and> activeSyncers (rotateActiveSyncerCandidate e m)
                              = (activeSyncers m)(peerPub A := None,
                                                  peerPub B \<mapsto> B\<lparr>syncType := ActiveSync\<rparr>)
                          \<and> inactiveSyncers (rotateActiveSyncerCandidate e m)
                              = (inactiveSyncers m)(peerPub A \<mapsto> A\<lparr>syncType := PassiveSync\<rparr>,
                                                    peerPub B := None)
                          \<and> len (activeSyncers (rotateActiveSyncerCandidate e m))
                              = len (activeSyncers m)))"
      by (rule exI [of _ A], rule exI [of _ B], rule conjI [OF ca], rule conjI [OF cb], rule ro)
  }
  note part2 = this
  show ?thesis by (rule conjI [OF part1 impI [OF part2]])
qed

theorem rotateActiveSyncerCandidate_rotates_witness:
  "mgr handler4 = mgr (syncerHandler \<lparr>NumActiveSyncers = 3\<rparr> scenario4)
   \<and> (\<exists>s \<in> ran (activeSyncers (mgr handler4)). state s = chansSynced)
   \<and> (\<exists>s \<in> ran (inactiveSyncers (mgr handler4)). state s = chansSynced)
   \<and> range_complete (rangeOrder calmEnv 0) (activeSyncers (mgr handler4))
   \<and> range_complete (rangeOrder calmEnv 1) (inactiveSyncers (mgr handler4))
   \<and> len (activeSyncers (rotateActiveSyncerCandidate calmEnv (mgr handler4)))
       = len (activeSyncers (mgr handler4))
   \<and> dom (activeSyncers (mgr handler4)) = {1, 2, 3}
   \<and> dom (activeSyncers (rotateActiveSyncerCandidate calmEnv (mgr handler4))) = {2, 3, 4}
   \<and> dom (inactiveSyncers (rotateActiveSyncerCandidate calmEnv (mgr handler4))) = {1, 5}
   \<and> rotateActiveSyncerCandidate calmEnv (mgr (syncerHandler \<lparr>NumActiveSyncers = 3\<rparr> []))
       = mgr (syncerHandler \<lparr>NumActiveSyncers = 3\<rparr> [])"
proof -
  have m: "mgr handler4 = mgr (syncerHandler \<lparr>NumActiveSyncers = 3\<rparr> scenario4)"
    by (simp add: handler4_def)
  have "activeSyncer1 \<in> ran (activeSyncers (mgr handler4))"
    using handler4_active by (rule ranI)
  moreover have "state activeSyncer1 = chansSynced" by (simp add: activeSyncer1_def)
  ultimately have a1: "\<exists>s \<in> ran (activeSyncers (mgr handler4)). state s = chansSynced"
    by (rule rev_bexI)
  have "passiveSyncer4 \<in> ran (inactiveSyncers (mgr handler4))"
    using handler4_inactive by (rule ranI)
  moreover have "state passiveSyncer4 = chansSynced" by (simp add: passiveSyncer4_def)
  ultimately have a2: "\<exists>s \<in> ran (inactiveSyncers (mgr handler4)). state s = chansSynced"
    by (rule rev_bexI)
  have d1: "dom (activeSyncers (mgr handler4)) = {1, 2, 3}"
    by (simp add: run_defs) auto
  have d2: "dom (inactiveSyncers (mgr handler4)) = {4, 5}"
    by (simp add: run_defs) auto
  have a3: "range_complete (rangeOrder calmEnv 0) (activeSyncers (mgr handler4))"
    unfolding range_complete_def d1 by (simp add: calmEnv_def)
  have a4: "range_complete (rangeOrder calmEnv 1) (inactiveSyncers (mgr handler4))"
    unfolding range_complete_def d2 by (simp add: calmEnv_def)
  have t: "\<And>p t. transitionErr calmEnv 0 p t = None" by (simp add: calmEnv_def)
  from rotateActiveSyncerCandidate_rotates [OF m, of calmEnv] a1 a2 a3 a4
  have r1: "len (activeSyncers (rotateActiveSyncerCandidate calmEnv (mgr handler4)))
       = len (activeSyncers (mgr handler4))"
    by (auto simp: t)
  have e: "mgr (syncerHandler \<lparr>NumActiveSyncers = 3\<rparr> [])
             = mgr (syncerHandler \<lparr>NumActiveSyncers = 3\<rparr> [])" by (rule refl)
  have "\<forall>s \<in> ran (activeSyncers (mgr (syncerHandler \<lparr>NumActiveSyncers = 3\<rparr> []))).
          state s \<noteq> chansSynced"
    by (simp add: run_defs)
  with rotateActiveSyncerCandidate_rotates [OF e, of calmEnv]
  have r2: "rotateActiveSyncerCandidate calmEnv (mgr (syncerHandler \<lparr>NumActiveSyncers = 3\<rparr> []))
       = mgr (syncerHandler \<lparr>NumActiveSyncers = 3\<rparr> [])"
    by blast
  have d3: "dom (activeSyncers (rotateActiveSyncerCandidate calmEnv (mgr handler4))) = {2, 3, 4}"
    by (simp add: run_defs find.simps; auto)
  have d4: "dom (inactiveSyncers (rotateActiveSyncerCandidate calmEnv (mgr handler4))) = {1, 5}"
    by (simp add: run_defs find.simps; auto)
  from m a1 a2 a3 a4 r1 d1 d3 d4 r2 show ?thesis by (intro conjI)
qed

text \<open>
  Claim C6. When \<^verbatim>\<open>ProcessSyncTransition\<close> returns an error, \<^verbatim>\<open>transitionActiveSyncer\<close> and
  \<^verbatim>\<open>transitionPassiveSyncer\<close> return that error and leave both maps as they were; when
  either function has changed a map, the transition has succeeded and the function has
  returned \<^verbatim>\<open>nil\<close>.
\<close>

theorem failed_transition_keeps_registry:
  "(ProcessSyncTransition e i s PassiveSync = Inl err \<longrightarrow>
      fst (transitionActiveSyncer e i s m) = Some err
      \<and> activeSyncers (snd (transitionActiveSyncer e i s m)) = activeSyncers m
      \<and> inactiveSyncers (snd (transitionActiveSyncer e i s m)) = inactiveSyncers m)
   \<and> (ProcessSyncTransition e i s ActiveSync = Inl err \<longrightarrow>
      fst (transitionPassiveSyncer e i s m) = Some err
      \<and> activeSyncers (snd (transitionPassiveSyncer e i s m)) = activeSyncers m
      \<and> inactiveSyncers (snd (transitionPassiveSyncer e i s m)) = inactiveSyncers m)
   \<and> (activeSyncers (snd (transitionActiveSyncer e i s m)) \<noteq> activeSyncers m
       \<or> inactiveSyncers (snd (transitionActiveSyncer e i s m)) \<noteq> inactiveSyncers m \<longrightarrow>
      ProcessSyncTransition e i s PassiveSync = Inr (s\<lparr>syncType := PassiveSync\<rparr>)
      \<and> fst (transitionActiveSyncer e i s m) = None)
   \<and> (activeSyncers (snd (transitionPassiveSyncer e i s m)) \<noteq> activeSyncers m
       \<or> inactiveSyncers (snd (transitionPassiveSyncer e i s m)) \<noteq> inactiveSyncers m \<longrightarrow>
      ProcessSyncTransition e i s ActiveSync = Inr (s\<lparr>syncType := ActiveSync\<rparr>)
      \<and> fst (transitionPassiveSyncer e i s m) = None)"
  by (auto simp: transitionActiveSyncer_def transitionPassiveSyncer_def ProcessSyncTransition_def
        record_call_def split: option.splits)

theorem failed_transition_keeps_registry_witness:
  "ProcessSyncTransition failingEnv 0 activeSyncer1 PassiveSync = Inl (SyncerError 1)
   \<and> fst (transitionActiveSyncer failingEnv 0 activeSyncer1 (mgr handler4)) = Some (SyncerError 1)
   \<and> activeSyncers (snd (transitionActiveSyncer failingEnv 0 activeSyncer1 (mgr handler4)))
       = activeSyncers (mgr handler4)
   \<and> inactiveSyncers (snd (transitionActiveSyncer failingEnv 0 activeSyncer1 (mgr handler4)))
       = inactiveSyncers (mgr handler4)
   \<and> ProcessSyncTransition failingEnv 0 passiveSyncer4 ActiveSync = Inl (SyncerError 1)
   \<and> fst (transitionPassiveSyncer failingEnv 0 passiveSyncer4 (mgr handler4)) = Some (SyncerError 1)
   \<and> activeSyncers (snd (transitionPassiveSyncer failingEnv 0 passiveSyncer4 (mgr handler4)))
       = activeSyncers (mgr handler4)
   \<and> inactiveSyncers (snd (transitionPassiveSyncer failingEnv 0 passiveSyncer4 (mgr handler4)))
       = inactiveSyncers (mgr handler4)
   \<and> activeSyncers (snd (transitionActiveSyncer calmEnv 0 activeSyncer1 (mgr handler4)))
       \<noteq> activeSyncers (mgr handler4)
   \<and> fst (transitionActiveSyncer calmEnv 0 activeSyncer1 (mgr handler4)) = None
   \<and> activeSyncers (snd (transitionPassiveSyncer calmEnv 0 passiveSyncer4 (mgr handler4)))
       \<noteq> activeSyncers (mgr handler4)
   \<and> fst (transitionPassiveSyncer calmEnv 0 passiveSyncer4 (mgr handler4)) = None"
proof -
  have f1: "ProcessSyncTransition failingEnv 0 activeSyncer1 PassiveSync = Inl (SyncerError 1)"
    by (simp add: ProcessSyncTransition_def failingEnv_def)
  have f4: "ProcessSyncTransition failingEnv 0 passiveSyncer4 ActiveSync = Inl (SyncerError 1)"
    by (simp add: ProcessSyncTransition_def failingEnv_def)
  have "activeSyncers (snd (transitionActiveSyncer calmEnv 0 activeSyncer1 (mgr handler4))) 1
          \<noteq> activeSyncers (mgr handler4) 1"
    using handler4_active
    by (simp add: transitionActiveSyncer_def ProcessSyncTransition_def calmEnv_def activeSyncer1_def)
  then have c1: "activeSyncers (snd (transitionActiveSyncer calmEnv 0 activeSyncer1 (mgr handler4)))
          \<noteq> activeSyncers (mgr handler4)"
    by metis
  have "activeSyncers (snd (transitionPassiveSyncer calmEnv 0 passiveSyncer4 (mgr handler4))) 4
          \<noteq> activeSyncers (mgr handler4) 4"
    by (simp add: transitionPassiveSyncer_def ProcessSyncTransition_def calmEnv_def passiveSyncer4_def)
       (simp add: run_defs)
  then have c4: "activeSyncers (snd (transitionPassiveSyncer calmEnv 0 passiveSyncer4 (mgr handler4)))
          \<noteq> activeSyncers (mgr handler4)"
    by metis
  note t1 = failed_transition_keeps_registry
    [of failingEnv 0 activeSyncer1 "SyncerError 1" "mgr handler4"]
  note t4 = failed_transition_keeps_registry
    [of failingEnv 0 passiveSyncer4 "SyncerError 1" "mgr handler4"]
  note t2 = failed_transition_keeps_registry
    [of calmEnv 0 activeSyncer1 "SyncerError 1" "mgr handler4"]
  note t3 = failed_transition_keeps_registry
    [of calmEnv 0 passiveSyncer4 "SyncerError 1" "mgr handler4"]
  from f1 f4 c1 c4 t1 t4 t2 t3 show ?thesis by blast
qed

text \<open>
  Claim C7. A register-peer event for a peer that has a syncer in either map closes the
  done channel and does nothing else: the loop makes no other call, both maps and the
  bootstrap variables are as before. \<^verbatim>\<open>InitSyncState\<close>, unless it takes a quit case,
  returns \<^verbatim>\<open>nil\<close>.
\<close>

theorem duplicate_registration_only_signals_done:
  assumes "peer \<in> dom (activeSyncers (mgr h)) \<union> dom (inactiveSyncers (mgr h))"
  shows "step e (NewSyncer peer) h = h\<lparr>mgr := (mgr h)\<lparr>calls := calls (mgr h) @ [CloseDone]\<rparr>\<rparr>
       \<and> fst (InitSyncState False False e peer h) = Returns None"
proof -
  from assms have "gossipSyncer (mgr h) peer \<noteq> None"
    by (auto simp: gossipSyncer_def split: option.splits)
  then obtain s where "gossipSyncer (mgr h) peer = Some s" by blast
  then have st: "step e (NewSyncer peer) h = h\<lparr>mgr := (mgr h)\<lparr>calls := calls (mgr h) @ [CloseDone]\<rparr>\<rparr>"
    by (simp add: handleNewSyncer_def record_call_def)
  then show ?thesis by (simp add: InitSyncState_def newCalls_def Let_def)
qed

theorem duplicate_registration_only_signals_done_witness:
  "1 \<in> dom (activeSyncers (mgr handler4)) \<union> dom (inactiveSyncers (mgr handler4))
   \<and> step failingEnv (NewSyncer 1) handler4
       = handler4\<lparr>mgr := (mgr handler4)\<lparr>calls := calls (mgr handler4) @ [CloseDone]\<rparr>\<rparr>
   \<and> fst (InitSyncState False False failingEnv 1 handler4) = Returns None"
proof -
  have h: "1 \<in> dom (activeSyncers (mgr handler4)) \<union> dom (inactiveSyncers (mgr handler4))"
    using handler4_active by auto
  from duplicate_registration_only_signals_done [OF h, of failingEnv] h show ?thesis by simp
qed

text \<open>
  Claim C8. Whenever \<^verbatim>\<open>InitSyncState\<close> returns \<^verbatim>\<open>nil\<close> from a state the loop has reached,
  the loop has run its iteration for the request, and in that iteration the done channel
  was closed after the syncer of the peer had been started. For a new peer the iteration
  inserts the syncer, starts it and closes the channel, in this order, and the maps are
  not touched in the rest of the iteration. From the return on, a lookup of the peer
  finds a syncer of that peer, and keeps finding one after any further events of the
  loop, as long as none of them is a stale-syncer event for this peer (which removes the
  syncer, as it is meant to).
\<close>

theorem register_returns_after_insert:
  assumes ret: "InitSyncState quit1 quit2 e peer (syncerHandler c evs) = (Returns None, h')"
  shows "h' = step e (NewSyncer peer) (syncerHandler c evs)
       \<and> (\<exists>pre post. calls (mgr h') = calls (mgr (syncerHandler c evs)) @ pre @ CloseDone # post
              \<and> Start peer \<in> set (calls (mgr (syncerHandler c evs)) @ pre))
       \<and> (gossipSyncer (mgr (syncerHandler c evs)) peer = None \<longrightarrow>
             (\<exists>s h1. registerSyncer (createGossipSyncer peer) (syncerHandler c evs) = (s, h1)
                \<and> calls (mgr h1) = calls (mgr (syncerHandler c evs)) @ [Start peer, CloseDone]
                \<and> gossipSyncer (mgr h1) peer = Some s
                \<and> h' = attemptHistoricalSync e s h1
                \<and> activeSyncers (mgr h') = activeSyncers (mgr h1)
                \<and> inactiveSyncers (mgr h') = inactiveSyncers (mgr h1)))
       \<and> (\<exists>s. gossipSyncer (mgr h') peer = Some s \<and> peerPub s = peer)
       \<and> (\<forall>evs'. (\<forall>e'. (e', StaleSyncer peer) \<notin> set evs') \<longrightarrow>
             (\<exists>s. gossipSyncer (mgr (handlerLoop evs' h')) peer = Some s \<and> peerPub s = peer))"
proof -
  let ?h = "syncerHandler c evs"
  from InitSyncState_success [OF ret] have h': "h' = step e (NewSyncer peer) ?h" by blast
  from syncerHandler_started [of c evs] have ok: "registry_ok (mgr ?h)" and st: "started_inv ?h"
    by blast+
  from step_props [OF ok, of e "NewSyncer peer"] have ok': "registry_ok (mgr h')"
    unfolding h' by blast
  from step_registered [OF ok, of e "NewSyncer peer"] have reg': "peer \<in> registered (mgr h')"
    unfolding h' by simp
  have lookup: "\<And>m. registry_ok m \<Longrightarrow> peer \<in> registered m
                  \<Longrightarrow> \<exists>s. gossipSyncer m peer = Some s \<and> peerPub s = peer"
  proof -
    fix m assume m: "registry_ok m" "peer \<in> registered m"
    then have "gossipSyncer m peer \<noteq> None" using gossipSyncer_registered by blast
    then obtain s where "gossipSyncer m peer = Some s" by blast
    with m(1) show "\<exists>s. gossipSyncer m peer = Some s \<and> peerPub s = peer"
      using gossipSyncer_peerPub by blast
  qed
  have p2: "\<exists>pre post. calls (mgr h') = calls (mgr ?h) @ pre @ CloseDone # post
              \<and> Start peer \<in> set (calls (mgr ?h) @ pre)"
  proof (cases "gossipSyncer (mgr ?h) peer")
    case (Some s0)
    then have "peer \<in> registered (mgr ?h)" using gossipSyncer_registered [of "mgr ?h" peer] by simp
    with st have "Start peer \<in> set (calls (mgr ?h) @ [])" by (simp add: started_inv_def)
    moreover from Some have "calls (mgr h') = calls (mgr ?h) @ [] @ CloseDone # []"
      unfolding h' by (simp add: handleNewSyncer_def)
    ultimately show ?thesis by blast
  next
    case None
    obtain s h1 where r: "registerSyncer (createGossipSyncer peer) ?h = (s, h1)"
      by (cases "registerSyncer (createGossipSyncer peer) ?h")
    with None have hh: "h' = attemptHistoricalSync e s h1" unfolding h'
      by (simp add: handleNewSyncer_def)
    from registerSyncer_calls [of "createGossipSyncer peer" ?h] r
    have c1: "calls (mgr h1) = calls (mgr ?h) @ [Start peer, CloseDone]"
      by (simp add: createGossipSyncer_def)
    from attemptHistoricalSync_calls_prefix [of e s h1] obtain post
      where "calls (mgr h') = calls (mgr h1) @ post" unfolding hh by blast
    with c1 have "calls (mgr h') = calls (mgr ?h) @ [Start peer] @ CloseDone # post" by simp
    moreover have "Start peer \<in> set (calls (mgr ?h) @ [Start peer])" by simp
    ultimately show ?thesis by blast
  qed
  have p3: "gossipSyncer (mgr ?h) peer = None \<longrightarrow>
             (\<exists>s h1. registerSyncer (createGossipSyncer peer) ?h = (s, h1)
                \<and> calls (mgr h1) = calls (mgr ?h) @ [Start peer, CloseDone]
                \<and> gossipSyncer (mgr h1) peer = Some s
                \<and> h' = attemptHistoricalSync e s h1
                \<and> activeSyncers (mgr h') = activeSyncers (mgr h1)
                \<and> inactiveSyncers (mgr h') = inactiveSyncers (mgr h1))"
  proof
    assume None: "gossipSyncer (mgr ?h) peer = None"
    obtain s h1 where r: "registerSyncer (createGossipSyncer peer) ?h = (s, h1)"
      by (cases "registerSyncer (createGossipSyncer peer) ?h")
    with None have hh: "h' = attemptHistoricalSync e s h1" unfolding h'
      by (simp add: handleNewSyncer_def)
    from registerSyncer_calls [of "createGossipSyncer peer" ?h] r
    have c1: "calls (mgr h1) = calls (mgr ?h) @ [Start peer, CloseDone]"
      by (simp add: createGossipSyncer_def)
    have pp: "peerPub (createGossipSyncer peer) = peer" by (simp add: createGossipSyncer_def)
    from registerSyncer_lookup [of ?h "createGossipSyncer peer" s h1] None r
    have l1: "gossipSyncer (mgr h1) peer = Some s" unfolding pp by simp
    from attemptHistoricalSync_same [of h1 e s]
    have "activeSyncers (mgr h') = activeSyncers (mgr h1)"
      "inactiveSyncers (mgr h') = inactiveSyncers (mgr h1)"
      unfolding hh same_registry_def by simp_all
    with r c1 l1 hh
    show "\<exists>s h1. registerSyncer (createGossipSyncer peer) ?h = (s, h1)
                \<and> calls (mgr h1) = calls (mgr ?h) @ [Start peer, CloseDone]
                \<and> gossipSyncer (mgr h1) peer = Some s
                \<and> h' = attemptHistoricalSync e s h1
                \<and> activeSyncers (mgr h') = activeSyncers (mgr h1)
                \<and> inactiveSyncers (mgr h') = inactiveSyncers (mgr h1)"
      by blast
  qed
  have p4: "\<exists>s. gossipSyncer (mgr h') peer = Some s \<and> peerPub s = peer"
    using ok' reg' by (rule lookup)
  have p5: "\<forall>evs'. (\<forall>e'. (e', StaleSyncer peer) \<notin> set evs') \<longrightarrow>
             (\<exists>s. gossipSyncer (mgr (handlerLoop evs' h')) peer = Some s \<and> peerPub s = peer)"
  proof (intro allI impI)
    fix evs' :: "(env \<times> event) list"
    assume "\<forall>e'. (e', StaleSyncer peer) \<notin> set evs'"
    from handlerLoop_keeps_registered [OF ok' reg' this]
    show "\<exists>s. gossipSyncer (mgr (handlerLoop evs' h')) peer = Some s \<and> peerPub s = peer"
      using lookup by blast
  qed
  from h' p2 p3 p4 p5 show ?thesis by (intro conjI)
qed

theorem register_returns_after_insert_witness:
  "InitSyncState False False calmEnv 6 handler4
     = (Returns None, step calmEnv (NewSyncer 6) handler4)
   \<and> gossipSyncer (mgr handler4) 6 = None
   \<and> calls (mgr (step calmEnv (NewSyncer 6) handler4))
       = calls (mgr handler4) @ [Start 6, CloseDone]
   \<and> gossipSyncer (mgr (step calmEnv (NewSyncer 6) handler4)) 6
       = Some \<lparr>peerPub = 6, syncType = PassiveSync, state = chansSynced\<rparr>
   \<and> (\<exists>s. gossipSyncer (mgr (handlerLoop [(calmEnv, RotateTick), (calmEnv, StaleSyncer 1)]
               (step calmEnv (NewSyncer 6) handler4))) 6 = Some s \<and> peerPub s = 6)"
proof -
  have c: "calls (mgr (step calmEnv (NewSyncer 6) handler4))
       = calls (mgr handler4) @ [Start 6, CloseDone]"
    by (simp add: run_defs)
  then have r: "InitSyncState False False calmEnv 6 handler4
     = (Returns None, step calmEnv (NewSyncer 6) handler4)"
    by (simp add: InitSyncState_def newCalls_def Let_def)
  have n: "gossipSyncer (mgr handler4) 6 = None" by (simp add: run_defs)
  have l: "gossipSyncer (mgr (step calmEnv (NewSyncer 6) handler4)) 6
       = Some \<lparr>peerPub = 6, syncType = PassiveSync, state = chansSynced\<rparr>"
    by (simp add: run_defs)
  have e: "\<forall>e'. (e', StaleSyncer 6) \<notin> set [(calmEnv, RotateTick), (calmEnv, StaleSyncer 1)]"
    by simp
  note t = register_returns_after_insert [OF r [unfolded handler4_def]]
  from t have "\<forall>evs'. (\<forall>e'. (e', StaleSyncer 6) \<notin> set evs') \<longrightarrow>
             (\<exists>s. gossipSyncer (mgr (handlerLoop evs' (step calmEnv (NewSyncer 6) handler4))) 6 = Some s
                  \<and> peerPub s = 6)"
    unfolding handler4_def by blast
  with e have "\<exists>s. gossipSyncer (mgr (handlerLoop [(calmEnv, RotateTick), (calmEnv, StaleSyncer 1)]
               (step calmEnv (NewSyncer 6) handler4))) 6 = Some s \<and> peerPub s = 6"
    by blast
  with r n c l show ?thesis by (intro conjI)
qed

text \<open>
  Claim C9. A stale-syncer event for a peer that is in neither map leaves both maps as
  they were and closes the done channel, so that \<^verbatim>\<open>PruneSyncState\<close> returns. Besides
  closing the channel the loop calls at most \<^verbatim>\<open>historicalSync\<close> and
  \<^verbatim>\<open>ResetSyncedSignal\<close>: it stops no syncer and asks for no sync transition.
\<close>

theorem unknown_stale_syncer_keeps_registry:
  assumes "peer \<notin> dom (activeSyncers (mgr h)) \<union> dom (inactiveSyncers (mgr h))"
  shows "activeSyncers (mgr (step e (StaleSyncer peer) h)) = activeSyncers (mgr h)
       \<and> inactiveSyncers (mgr (step e (StaleSyncer peer) h)) = inactiveSyncers (mgr h)
       \<and> (\<exists>cs. calls (mgr (step e (StaleSyncer peer) h)) = calls (mgr h) @ CloseDone # cs
              \<and> (\<forall>c \<in> set cs. (\<exists>p err. c = CallHistoricalSync p err)
                                \<or> (\<exists>p. c = CallResetSyncedSignal p)))
       \<and> fst (PruneSyncState False False e peer h) = Returns ()"
proof -
  from assms have "gossipSyncer (mgr h) peer = None"
    by (auto simp: gossipSyncer_def split: option.splits)
  then have rm: "removeGossipSyncer e peer (mgr h) = mgr h"
    by (rule removeGossipSyncer_unknown)
  let ?m1 = "record_call CloseDone (mgr h)"
  obtain r m2 where f: "forceHistoricalSync e 1 ?m1 = (r, m2)"
    by (cases "forceHistoricalSync e 1 ?m1")
  from forceHistoricalSync_same [OF f] obtain cs where
    sr: "same_registry ?m1 m2" and
    cs: "calls m2 = calls ?m1 @ cs" "\<forall>c \<in> set cs. \<exists>p err. c = CallHistoricalSync p err"
    by blast
  from sr have a2: "activeSyncers m2 = activeSyncers (mgr h)"
    and i2: "inactiveSyncers m2 = inactiveSyncers (mgr h)"
    by (simp_all add: same_registry_def)
  from cs(1) have c2: "calls m2 = calls (mgr h) @ CloseDone # cs" by simp
  let ?h' = "step e (StaleSyncer peer) h"
  have main: "activeSyncers (mgr ?h') = activeSyncers (mgr h)
       \<and> inactiveSyncers (mgr ?h') = inactiveSyncers (mgr h)
       \<and> (\<exists>cs. calls (mgr ?h') = calls (mgr h) @ CloseDone # cs
              \<and> (\<forall>c \<in> set cs. (\<exists>p err. c = CallHistoricalSync p err)
                                \<or> (\<exists>p. c = CallResetSyncedSignal p)))"
  proof (cases "initialHistoricalSyncer h")
    case None
    then have "mgr ?h' = ?m1" by (simp add: handleStaleSyncer_def rm)
    then show ?thesis by simp
  next
    case (Some ihs)
    show ?thesis
    proof (cases "peer \<noteq> peerPub ihs")
      case True
      with Some have "mgr ?h' = ?m1" by (simp add: handleStaleSyncer_def rm)
      then show ?thesis by simp
    next
      case False
      then have eq: "peerPub ihs = peer" by simp
      show ?thesis
      proof (cases r)
        case None
        with Some eq f have "mgr ?h' = m2" by (simp add: handleStaleSyncer_def rm Let_def)
        with a2 i2 c2 cs(2) show ?thesis by auto
      next
        case (Some s)
        with \<open>initialHistoricalSyncer h = Some ihs\<close> eq f
        have "mgr ?h' = record_call (CallResetSyncedSignal (peerPub s)) m2"
          by (simp add: handleStaleSyncer_def rm Let_def)
        moreover have "calls (record_call (CallResetSyncedSignal (peerPub s)) m2)
                  = calls (mgr h) @ CloseDone # (cs @ [CallResetSyncedSignal (peerPub s)])"
          using c2 by simp
        moreover have "\<forall>c \<in> set (cs @ [CallResetSyncedSignal (peerPub s)]).
                 (\<exists>p err. c = CallHistoricalSync p err) \<or> (\<exists>p. c = CallResetSyncedSignal p)"
          using cs(2) by auto
        ultimately show ?thesis using a2 i2 by (metis record_call_fields(2,3))
      qed
    qed
  qed
  then obtain cs' where "calls (mgr ?h') = calls (mgr h) @ CloseDone # cs'" by blast
  then have "CloseDone \<in> set (newCalls (mgr h) (mgr ?h'))" by (simp add: newCalls_def)
  then have "fst (PruneSyncState False False e peer h) = Returns ()"
    by (simp add: PruneSyncState_def Let_def)
  with main show ?thesis by blast
qed

theorem unknown_stale_syncer_keeps_registry_witness:
  "9 \<notin> dom (activeSyncers (mgr handler4)) \<union> dom (inactiveSyncers (mgr handler4))
   \<and> activeSyncers (mgr (step calmEnv (StaleSyncer 9) handler4)) = activeSyncers (mgr handler4)
   \<and> inactiveSyncers (mgr (step calmEnv (StaleSyncer 9) handler4)) = inactiveSyncers (mgr handler4)
   \<and> calls (mgr (step calmEnv (StaleSyncer 9) handler4)) = calls (mgr handler4) @ [CloseDone]
   \<and> fst (PruneSyncState False False calmEnv 9 handler4) = Returns ()"
proof -
  have h: "9 \<notin> dom (activeSyncers (mgr handler4)) \<union> dom (inactiveSyncers (mgr handler4))"
    by (simp add: run_defs)
  have c: "calls (mgr (step calmEnv (StaleSyncer 9) handler4)) = calls (mgr handler4) @ [CloseDone]"
    by (simp add: run_defs)
  from unknown_stale_syncer_keeps_registry [OF h, of calmEnv] h c show ?thesis by blast
qed

text \<open>
  Claim C10. A historical-sync tick leaves both maps as they were, entry for entry (the
  same peers with the same syncers and sync types), whatever the calls of
  \<^verbatim>\<open>historicalSync\<close> return; the only calls it makes are calls of \<^verbatim>\<open>historicalSync\<close>.
\<close>

theorem historical_tick_keeps_registry:
  "activeSyncers (mgr (step e HistoricalSyncTick h)) = activeSyncers (mgr h)
   \<and> inactiveSyncers (mgr (step e HistoricalSyncTick h)) = inactiveSyncers (mgr h)
   \<and> (\<exists>cs. calls (mgr (step e HistoricalSyncTick h)) = calls (mgr h) @ cs
          \<and> (\<forall>c \<in> set cs. \<exists>p err. c = CallHistoricalSync p err))"
proof -
  obtain r m' where f: "forceHistoricalSync e 0 (mgr h) = (r, m')"
    by (cases "forceHistoricalSync e 0 (mgr h)")
  from forceHistoricalSync_same [OF f] f show ?thesis
    by (simp add: same_registry_def)
qed

theorem historical_tick_keeps_registry_witness:
  "activeSyncers (mgr (step failingEnv HistoricalSyncTick handler4)) = activeSyncers (mgr handler4)
   \<and> inactiveSyncers (mgr (step failingEnv HistoricalSyncTick handler4)) = inactiveSyncers (mgr handler4)
   \<and> activeSyncers (mgr (step calmEnv HistoricalSyncTick handler4)) = activeSyncers (mgr handler4)
   \<and> inactiveSyncers (mgr (step calmEnv HistoricalSyncTick handler4)) = inactiveSyncers (mgr handler4)
   \<and> activeSyncers (mgr handler4) 1 = Some activeSyncer1
   \<and> inactiveSyncers (mgr handler4) 4 = Some passiveSyncer4"
  using historical_tick_keeps_registry [of failingEnv handler4]
    historical_tick_keeps_registry [of calmEnv handler4]
    handler4_active handler4_inactive
  by blast

end
